theory Spec2Isabelle
  imports Complex_Main "HOL-Library.Sublist" "HOL-Library.Multiset"
begin

section \<open>Strings\<close>

text \<open>
  Text is a \<^typ>\<open>string\<close>, one \<^typ>\<open>char\<close> per code unit: the model covers the text
  whose code units are below 256, the ASCII range and the Latin-1 range above it. On
  these code units the character classes (\<^verbatim>\<open>\s\<close>, \<^verbatim>\<open>\w\<close>, \<^verbatim>\<open>\d\<close>), \<^verbatim>\<open>trim\<close> and
  \<^verbatim>\<open>toLowerCase\<close> are those of ECMAScript. The classes \<^verbatim>\<open>\w\<close> and \<^verbatim>\<open>\d\<close> hold ASCII
  characters only.
\<close>

definition is_lower :: "char \<Rightarrow> bool" where
  "is_lower c = (c \<in> set ''abcdefghijklmnopqrstuvwxyz'')"

definition is_upper :: "char \<Rightarrow> bool" where
  "is_upper c = (c \<in> set ''ABCDEFGHIJKLMNOPQRSTUVWXYZ'')"

definition is_digit :: "char \<Rightarrow> bool" where
  "is_digit c = (c \<in> set ''0123456789'')"

text \<open>
  White space, for \<^verbatim>\<open>\s\<close> and for \<^verbatim>\<open>trim\<close>: tab, line feed, vertical tab, form feed,
  carriage return, space, and the no-break space U+00A0.
\<close>

definition is_space :: "char \<Rightarrow> bool" where
  "is_space c =
     (c \<in> {CHR 0x09, CHR 0x0A, CHR 0x0B, CHR 0x0C, CHR 0x0D, CHR '' '', CHR 0xA0})"

text \<open>\<^verbatim>\<open>\w\<close>: letters, digits and the underscore.\<close>

definition is_word :: "char \<Rightarrow> bool" where
  "is_word c = (is_lower c \<or> is_upper c \<or> is_digit c \<or> c = CHR ''_'')"

text \<open>
  The letters of the Latin-1 range that have a form in the other case in that range: the
  lower-case letters U+00E0 to U+00FE without the division sign U+00F7, and the upper-case
  letters U+00C0 to U+00DE without the multiplication sign U+00D7, in the same order.
\<close>

definition latin_lower :: string where
  "latin_lower =
     [CHR 0xE0, CHR 0xE1, CHR 0xE2, CHR 0xE3, CHR 0xE4, CHR 0xE5, CHR 0xE6, CHR 0xE7,
      CHR 0xE8, CHR 0xE9, CHR 0xEA, CHR 0xEB, CHR 0xEC, CHR 0xED, CHR 0xEE, CHR 0xEF,
      CHR 0xF0, CHR 0xF1, CHR 0xF2, CHR 0xF3, CHR 0xF4, CHR 0xF5, CHR 0xF6,
      CHR 0xF8, CHR 0xF9, CHR 0xFA, CHR 0xFB, CHR 0xFC, CHR 0xFD, CHR 0xFE]"

definition latin_upper :: string where
  "latin_upper =
     [CHR 0xC0, CHR 0xC1, CHR 0xC2, CHR 0xC3, CHR 0xC4, CHR 0xC5, CHR 0xC6, CHR 0xC7,
      CHR 0xC8, CHR 0xC9, CHR 0xCA, CHR 0xCB, CHR 0xCC, CHR 0xCD, CHR 0xCE, CHR 0xCF,
      CHR 0xD0, CHR 0xD1, CHR 0xD2, CHR 0xD3, CHR 0xD4, CHR 0xD5, CHR 0xD6,
      CHR 0xD8, CHR 0xD9, CHR 0xDA, CHR 0xDB, CHR 0xDC, CHR 0xDD, CHR 0xDE]"

text \<open>
  The upper-case form of a character, as the flag \<^verbatim>\<open>i\<close> of a regular expression
  compares characters. Three letters below 256 have no upper-case form that is one code
  unit below 256, the micro sign U+00B5, the sharp s U+00DF and the y with diaeresis
  U+00FF: they stay as they are, and each is the only character below 256 with its form.
\<close>

definition upper_char :: "char \<Rightarrow> char" where
  "upper_char c =
     (case map_of (zip (''abcdefghijklmnopqrstuvwxyz'' @ latin_lower)
                       (''ABCDEFGHIJKLMNOPQRSTUVWXYZ'' @ latin_upper)) c of
        Some u \<Rightarrow> u | None \<Rightarrow> c)"

definition lower_char :: "char \<Rightarrow> char" where
  "lower_char c =
     (case map_of (zip (''ABCDEFGHIJKLMNOPQRSTUVWXYZ'' @ latin_upper)
                       (''abcdefghijklmnopqrstuvwxyz'' @ latin_lower)) c of
        Some l \<Rightarrow> l | None \<Rightarrow> c)"

text \<open>
  \<^verbatim>\<open>s.toUpperCase()\<close>, character by character. The source compares an upper-case form
  with words of ASCII letters only (the names of the levels, \<^verbatim>\<open>AND\<close>, \<^verbatim>\<open>OR\<close>,
  \<^verbatim>\<open>NOT\<close>), and the forms of the three letters above, which are kept here, hold no ASCII
  letter but the \<^verbatim>\<open>SS\<close> of the sharp s, which is in none of these words: every such
  comparison comes out as in the source.
\<close>

definition toUpperCase :: "string \<Rightarrow> string" where
  "toUpperCase s = map upper_char s"

definition toLowerCase :: "string \<Rightarrow> string" where
  "toLowerCase s = map lower_char s"

definition trim :: "string \<Rightarrow> string" where
  "trim s = rev (dropWhile is_space (rev (dropWhile is_space s)))"

text \<open>\<^verbatim>\<open>s.startsWith(p)\<close>, \<^verbatim>\<open>s.endsWith(p)\<close>, \<^verbatim>\<open>s.includes(p)\<close>.\<close>

definition startsWith :: "string \<Rightarrow> string \<Rightarrow> bool" where
  "startsWith s p = prefix p s"

definition endsWith :: "string \<Rightarrow> string \<Rightarrow> bool" where
  "endsWith s p = suffix p s"

definition str_includes :: "string \<Rightarrow> string \<Rightarrow> bool" where
  "str_includes s p = sublist p s"

section \<open>Level normalizer (lib/utils: normalizeLogLevel)\<close>

text \<open>
  \<^verbatim>\<open>type LogLevel = 'TRACE' | 'DEBUG' | 'INFO' | 'WARN' | 'ERROR' | 'FATAL'\<close>: a level is
  a string at run time; the six canonical ones are listed here.
\<close>

definition LogLevels :: "string list" where
  "LogLevels = [''TRACE'', ''DEBUG'', ''INFO'', ''WARN'', ''ERROR'', ''FATAL'']"

definition normalizeLogLevel :: "string \<Rightarrow> string" where
  "normalizeLogLevel level =
     (let normalized = toUpperCase level in
      if normalized = ''WARNING'' then ''WARN''
      else if normalized = ''TRACE'' \<or> normalized = ''DEBUG'' \<or> normalized = ''INFO''
              \<or> normalized = ''WARN'' \<or> normalized = ''ERROR'' \<or> normalized = ''FATAL''
           then normalized
      else ''INFO'')"

section \<open>Run-time values\<close>

text \<open>
  A number is an IEEE double: a finite one is the rational it denotes, with the three
  special values beside them. The two zeros are one value, which no operation used here
  tells apart.
\<close>

datatype number = NaN | Fin rat | PosInf | NegInf

text \<open>
  The double nearest to a rational, with ties to the even significand: the result of an
  arithmetic operation whose exact result is that rational. \<open>ilog2 x\<close> is the exponent
  of the power of two at or below \<open>x\<close>, for a positive \<open>x\<close>.
\<close>

function bit_length :: "int \<Rightarrow> int" where
  "bit_length n = (if n \<le> 0 then 0 else 1 + bit_length (n div 2))"
  by pat_completeness auto
termination
  by (relation "measure nat") auto

declare bit_length.simps [simp del]

definition pow2 :: "int \<Rightarrow> rat" where
  "pow2 k = (if 0 \<le> k then 2 ^ nat k else 1 / 2 ^ nat (- k))"

definition ilog2 :: "rat \<Rightarrow> int" where
  "ilog2 x =
     (let k = bit_length (fst (quotient_of x)) - bit_length (snd (quotient_of x))
      in if pow2 k \<le> x then k else k - 1)"

definition round_half_even :: "rat \<Rightarrow> int" where
  "round_half_even x =
     (let f = \<lfloor>x\<rfloor>; d = x - of_int f
      in if d < 1 / 2 then f else if 1 / 2 < d then f + 1 else if even f then f else f + 1)"

definition round_double :: "rat \<Rightarrow> number" where
  "round_double x =
     (if x = 0 then Fin 0
      else
        (let a = \<bar>x\<bar>;
             e = max (ilog2 a) (- 1022);
             q = pow2 (e - 52);
             r = of_int (round_half_even (a / q)) * q
         in if pow2 1024 \<le> r then (if 0 < x then PosInf else NegInf)
            else Fin (if 0 < x then r else - r)))"

text \<open>\<^verbatim>\<open>a < b\<close> and \<^verbatim>\<open>a <= b\<close> on numbers; any comparison with NaN is false.\<close>

fun num_lt :: "number \<Rightarrow> number \<Rightarrow> bool" where
  "num_lt (Fin x) (Fin y) = (x < y)"
| "num_lt NegInf (Fin y) = True"
| "num_lt NegInf PosInf = True"
| "num_lt (Fin x) PosInf = True"
| "num_lt a b = False"

definition num_le :: "number \<Rightarrow> number \<Rightarrow> bool" where
  "num_le a b = (num_lt a b \<or> (a = b \<and> a \<noteq> NaN))"

text \<open>
  An object has an identity, its address: two objects are the same object when their
  addresses are equal. A \<^verbatim>\<open>Date\<close> holds a time value in milliseconds, or NaN
  (\<open>None\<close>, an Invalid Date).
\<close>

type_synonym addr = nat

datatype Date = Date (ref: addr) (getTime: "int option")

datatype jsval =
    Undefined
  | Null
  | Bool bool
  | Num number
  | Str string
  | DateV Date
  | Arr addr "jsval list"
  | Obj addr "(string \<times> jsval) list"
  | Fn string

text \<open>
  The operations of the JavaScript run time and of the MiniSearch library that the source
  calls and does not define are parameters of the model.
\<close>

record builtins =
  JSON_parse :: "string \<Rightarrow> string + jsval"  \<comment> \<open>\<open>Inl e\<close>: throws the error that prints as \<open>e\<close>\<close>
  JSON_stringify :: "jsval \<Rightarrow> string"
  Date_parse :: "string \<Rightarrow> int option"  \<comment> \<open>time value of \<^verbatim>\<open>new Date(s)\<close>, \<open>None\<close>: NaN\<close>
  String_to_number :: "string \<Rightarrow> number"  \<comment> \<open>\<^verbatim>\<open>Number(s)\<close> on a string\<close>
  Number_to_string :: "number \<Rightarrow> string"
  Date_to_string :: "Date \<Rightarrow> string"
  Function_to_string :: "string \<Rightarrow> string"

fun join :: "string \<Rightarrow> string list \<Rightarrow> string" where
  "join sep [] = []"
| "join sep [x] = x"
| "join sep (x # y # ys) = x @ sep @ join sep (y # ys)"

text \<open>\<^verbatim>\<open>String(v)\<close>.\<close>

fun ToString :: "builtins \<Rightarrow> jsval \<Rightarrow> string" where
  "ToString b Undefined = ''undefined''"
| "ToString b Null = ''null''"
| "ToString b (Bool x) = (if x then ''true'' else ''false'')"
| "ToString b (Num n) = Number_to_string b n"
| "ToString b (Str s) = s"
| "ToString b (DateV d) = Date_to_string b d"
| "ToString b (Arr a xs) =
     join '','' (map (\<lambda>x. if x = Undefined \<or> x = Null then [] else ToString b x) xs)"
| "ToString b (Obj a ps) = ''[object Object]''"
| "ToString b (Fn n) = Function_to_string b n"

text \<open>\<^verbatim>\<open>Number(v)\<close>.\<close>

definition ToNumber :: "builtins \<Rightarrow> jsval \<Rightarrow> number" where
  "ToNumber b v =
     (case v of
        Undefined \<Rightarrow> NaN
      | Null \<Rightarrow> Fin 0
      | Bool x \<Rightarrow> (if x then Fin 1 else Fin 0)
      | Num n \<Rightarrow> n
      | Str s \<Rightarrow> String_to_number b s
      | DateV d \<Rightarrow> (case getTime d of None \<Rightarrow> NaN | Some t \<Rightarrow> Fin (of_int t))
      | _ \<Rightarrow> String_to_number b (ToString b v))"

text \<open>Truthiness, as \<^verbatim>\<open>if (v)\<close> and \<^verbatim>\<open>v || w\<close> test it.\<close>

definition truthy :: "jsval \<Rightarrow> bool" where
  "truthy v =
     (case v of
        Undefined \<Rightarrow> False
      | Null \<Rightarrow> False
      | Bool x \<Rightarrow> x
      | Num n \<Rightarrow> n \<noteq> NaN \<and> n \<noteq> Fin 0
      | Str s \<Rightarrow> s \<noteq> []
      | _ \<Rightarrow> True)"

definition or_else :: "jsval \<Rightarrow> jsval \<Rightarrow> jsval" where
  "or_else v w = (if truthy v then v else w)"

text \<open>\<^verbatim>\<open>v === undefined || v === null\<close>.\<close>

definition absent :: "jsval \<Rightarrow> bool" where
  "absent v = (v = Undefined \<or> v = Null)"

text \<open>
  \<^verbatim>\<open>a === b\<close>: primitives by value (NaN differs from itself), objects by identity.
\<close>

definition strict_equals :: "jsval \<Rightarrow> jsval \<Rightarrow> bool" where
  "strict_equals v w =
     (case v of
        Undefined \<Rightarrow> w = Undefined
      | Null \<Rightarrow> w = Null
      | Bool x \<Rightarrow> w = Bool x
      | Num x \<Rightarrow> x \<noteq> NaN \<and> w = Num x
      | Str s \<Rightarrow> w = Str s
      | DateV d \<Rightarrow> (case w of DateV e \<Rightarrow> ref d = ref e | _ \<Rightarrow> False)
      | Arr a xs \<Rightarrow> (case w of Arr a' ys \<Rightarrow> a = a' | _ \<Rightarrow> False)
      | Obj a ps \<Rightarrow> (case w of Obj a' qs \<Rightarrow> a = a' | _ \<Rightarrow> False)
      | Fn n \<Rightarrow> w = Fn n)"

text \<open>
  The key of a value in a \<^verbatim>\<open>Map\<close> (SameValueZero): the value itself for a primitive,
  NaN included, and the identity alone for an object.
\<close>

fun ident :: "jsval \<Rightarrow> jsval" where
  "ident (DateV d) = DateV (Date (ref d) None)"
| "ident (Arr a xs) = Arr a []"
| "ident (Obj a ps) = Obj a []"
| "ident v = v"

definition same_value_zero :: "jsval \<Rightarrow> jsval \<Rightarrow> bool" where
  "same_value_zero v w = (ident v = ident w)"

text \<open>
  A \<^verbatim>\<open>Map\<close> is an association list in insertion order; \<^verbatim>\<open>set\<close> on a key that is
  there keeps the key and its place and replaces the value.
\<close>

fun Map_get :: "('k \<Rightarrow> 'k \<Rightarrow> bool) \<Rightarrow> ('k \<times> 'v) list \<Rightarrow> 'k \<Rightarrow> 'v option" where
  "Map_get eq [] k = None"
| "Map_get eq ((k', v) # m) k = (if eq k' k then Some v else Map_get eq m k)"

fun Map_set :: "('k \<Rightarrow> 'k \<Rightarrow> bool) \<Rightarrow> ('k \<times> 'v) list \<Rightarrow> 'k \<Rightarrow> 'v \<Rightarrow> ('k \<times> 'v) list" where
  "Map_set eq [] k v = [(k, v)]"
| "Map_set eq ((k', v') # m) k v =
     (if eq k' k then (k', v) # m else (k', v') # Map_set eq m k v)"

section \<open>Data model (types)\<close>

record LogEntry =
  id' :: string
  timestamp :: Date
  level :: string
  message :: string
  file' :: string
  raw :: string
  fields' :: "(string \<times> jsval) list option"
  source :: jsval
  service :: jsval
  host :: jsval
  lineNumber :: "int option"

datatype FilterOperator =
  equals | contains | startsWith_op | endsWith_op | gt | gte | lt | lte | range | exists

record QueryFilter =
  field :: string
  operator :: FilterOperator
  value' :: jsval
  negate :: bool  \<comment> \<open>an absent \<^verbatim>\<open>negate\<close> is falsy\<close>

record TimeRange =
  from' :: Date
  to' :: Date

record SearchQuery =
  text' :: string
  filters :: "QueryFilter list"
  timeRange :: TimeRange
  fuzzy :: bool

record SearchResult =
  entries :: "LogEntry list"
  total :: nat
  took :: int

record FieldSuggestion =
  sfield :: string
  type' :: string
  cardinality :: nat
  examples :: "jsval list"

text \<open>The outcome of a call that can throw: its value, or the text of the error thrown.\<close>

datatype 'a outcome = Return 'a | Throw string

section \<open>Search index (lib/search: LogSearchIndex)\<close>

text \<open>
  The MiniSearch object is a state of an abstract type with the operations the
  index calls here: \<open>ms_addAll\<close> gives the new state and the error when the call
  threw, \<open>ms_search\<close> the ids of the results, or \<open>None\<close> when it throws.
\<close>

record 'ms MiniSearch =
  ms_addAll :: "'ms \<Rightarrow> LogEntry list \<Rightarrow> 'ms \<times> string option"
  ms_search :: "'ms \<Rightarrow> string \<Rightarrow> bool \<Rightarrow> string list option"

record 'ms LogSearchIndex =
  miniSearch :: 'ms
  index_entries :: "(string \<times> LogEntry) list"
  fieldStats :: "(string \<times> FieldSuggestion) list"

text \<open>
  \<^verbatim>\<open>entry.fields?.[field]\<close>: an own property, else a member inherited from
  \<^verbatim>\<open>Object.prototype\<close>, else undefined. The inherited members are functions, but for
  \<^verbatim>\<open>__proto__\<close>, which is the prototype object itself, kept at the address 0.
\<close>

definition Object_prototype :: "string list" where
  "Object_prototype = [''constructor'', ''__proto__'', ''hasOwnProperty'', ''isPrototypeOf'',
     ''propertyIsEnumerable'', ''toLocaleString'', ''toString'', ''valueOf'',
     ''__defineGetter__'', ''__defineSetter__'', ''__lookupGetter__'', ''__lookupSetter__'']"

definition get_property :: "(string \<times> jsval) list \<Rightarrow> string \<Rightarrow> jsval" where
  "get_property ps k =
     (case map_of ps k of
        Some v \<Rightarrow> v
      | None \<Rightarrow> (if k = ''__proto__'' then Obj 0 []
                 else if k \<in> set Object_prototype then Fn k else Undefined))"

definition getFieldValue :: "LogEntry \<Rightarrow> string \<Rightarrow> jsval" where
  "getFieldValue entry fld =
     (if fld = ''timestamp'' then DateV (timestamp entry)
      else if fld = ''level'' then Str (level entry)
      else if fld = ''message'' then Str (message entry)
      else if fld = ''file'' then Str (file' entry)
      else if fld = ''source'' then source entry
      else if fld = ''service'' then service entry
      else if fld = ''host'' then host entry
      else if fld = ''lineNumber'' then
        (case lineNumber entry of None \<Rightarrow> Undefined | Some n \<Rightarrow> Num (Fin (of_int n)))
      else (case fields' entry of None \<Rightarrow> Undefined | Some ps \<Rightarrow> get_property ps fld))"

text \<open>
  The \<^verbatim>\<open>switch\<close> of \<^verbatim>\<open>matchesFilter\<close> on the operator, at a present value. The
  operator is one of the ten of the type \<^verbatim>\<open>FilterOperator\<close>, so the \<^verbatim>\<open>default\<close> of the
  \<^verbatim>\<open>switch\<close> has no case here.
\<close>

definition operator_matches :: "builtins \<Rightarrow> FilterOperator \<Rightarrow> jsval \<Rightarrow> jsval \<Rightarrow> bool" where
  "operator_matches b op v fv =
     (case op of
        equals \<Rightarrow> strict_equals v fv
      | contains \<Rightarrow> str_includes (toLowerCase (ToString b v)) (toLowerCase (ToString b fv))
      | startsWith_op \<Rightarrow> startsWith (toLowerCase (ToString b v)) (toLowerCase (ToString b fv))
      | endsWith_op \<Rightarrow> endsWith (toLowerCase (ToString b v)) (toLowerCase (ToString b fv))
      | gt \<Rightarrow> num_lt (ToNumber b fv) (ToNumber b v)
      | gte \<Rightarrow> num_le (ToNumber b fv) (ToNumber b v)
      | lt \<Rightarrow> num_lt (ToNumber b v) (ToNumber b fv)
      | lte \<Rightarrow> num_le (ToNumber b v) (ToNumber b fv)
      | range \<Rightarrow>
          (case fv of
             Arr a [lo, hi] \<Rightarrow>
               num_le (ToNumber b lo) (ToNumber b v) \<and> num_le (ToNumber b v) (ToNumber b hi)
           | _ \<Rightarrow> False)
      | exists \<Rightarrow> v \<noteq> Undefined \<and> v \<noteq> Null)"

definition matchesFilter :: "builtins \<Rightarrow> LogEntry \<Rightarrow> QueryFilter \<Rightarrow> bool" where
  "matchesFilter b entry f =
     (let v = getFieldValue entry (field f) in
      if v = Undefined \<or> v = Null then (if operator f = exists then False else True)
      else
        (let matches = operator_matches b (operator f) v (value' f)
         in if negate f then \<not> matches else matches))"

definition matchesFilters :: "builtins \<Rightarrow> LogEntry \<Rightarrow> QueryFilter list \<Rightarrow> bool" where
  "matchesFilters b entry fs = list_all (matchesFilter b entry) fs"

text \<open>
  \<^verbatim>\<open>entry.timestamp >= from\<close> on two dates compares their time values, and is false when
  one of them is NaN.
\<close>

definition date_le :: "Date \<Rightarrow> Date \<Rightarrow> bool" where
  "date_le d e = (case (getTime d, getTime e) of (Some s, Some t) \<Rightarrow> s \<le> t | _ \<Rightarrow> False)"

text \<open>
  \<^verbatim>\<open>Array.prototype.sort\<close> with a comparison function is a stable sort: an insertion
  sort that puts an element before the first one it does not come after. A comparison
  that gives NaN counts as zero.
\<close>

fun insert_sorted :: "('a \<Rightarrow> 'a \<Rightarrow> int) \<Rightarrow> 'a \<Rightarrow> 'a list \<Rightarrow> 'a list" where
  "insert_sorted cmp x [] = [x]"
| "insert_sorted cmp x (y # ys) =
     (if cmp x y \<le> 0 then x # y # ys else y # insert_sorted cmp x ys)"

definition Array_sort :: "('a \<Rightarrow> 'a \<Rightarrow> int) \<Rightarrow> 'a list \<Rightarrow> 'a list" where
  "Array_sort cmp xs = foldr (insert_sorted cmp) xs []"

text \<open>\<^verbatim>\<open>(a, b) => b.timestamp.getTime() - a.timestamp.getTime()\<close>\<close>

definition by_timestamp_desc :: "LogEntry \<Rightarrow> LogEntry \<Rightarrow> int" where
  "by_timestamp_desc a c =
     (case (getTime (timestamp c), getTime (timestamp a)) of
        (Some tc, Some ta) \<Rightarrow> tc - ta
      | _ \<Rightarrow> 0)"

text \<open>
  \<^verbatim>\<open>search\<close>; \<open>elapsed\<close> is the time that the two readings of the clock are apart.
  Only the text search can throw inside the \<^verbatim>\<open>try\<close>, and the \<^verbatim>\<open>catch\<close> answers with an
  empty result.
\<close>

definition search ::
  "'ms MiniSearch \<Rightarrow> builtins \<Rightarrow> int \<Rightarrow> 'ms LogSearchIndex \<Rightarrow> SearchQuery \<Rightarrow> SearchResult" where
  "search ms b elapsed idx query =
     (let candidateEntries =
            filter (\<lambda>entry. date_le (from' (timeRange query)) (timestamp entry)
                           \<and> date_le (timestamp entry) (to' (timeRange query)))
              (map snd (index_entries idx));
          candidateEntries =
            (if length (filters query) > 0
             then filter (\<lambda>entry. matchesFilters b entry (filters query)) candidateEntries
             else candidateEntries);
          searchResults =
            (if trim (text' query) \<noteq> []
             then (case ms_search ms (miniSearch idx) (text' query) (fuzzy query) of
                     None \<Rightarrow> None
                   | Some resultIds \<Rightarrow>
                       Some (filter (\<lambda>entry. id' entry \<in> set resultIds) candidateEntries))
             else Some candidateEntries)
      in case searchResults of
           None \<Rightarrow> \<lparr>entries = [], total = 0, took = elapsed\<rparr>
         | Some rs \<Rightarrow>
             (let sorted = Array_sort by_timestamp_desc rs
              in \<lparr>entries = sorted, total = length sorted, took = elapsed\<rparr>))"

text \<open>\<^verbatim>\<open>updateFieldStat\<close>: the table of a field counts the values by their Map key.\<close>

definition updateFieldStat ::
  "(string \<times> (jsval \<times> nat) list) list \<Rightarrow> string \<Rightarrow> jsval \<Rightarrow> (string \<times> (jsval \<times> nat) list) list" where
  "updateFieldStat fieldCounts fld v =
     (if v = Undefined \<or> v = Null then fieldCounts
      else
        (let fieldCounts =
               (if Map_get (=) fieldCounts fld = None then Map_set (=) fieldCounts fld []
                else fieldCounts);
             valueCounts = (case Map_get (=) fieldCounts fld of Some m \<Rightarrow> m | None \<Rightarrow> []);
             n = (case Map_get same_value_zero valueCounts v of Some c \<Rightarrow> c | None \<Rightarrow> 0)
         in Map_set (=) fieldCounts fld (Map_set same_value_zero valueCounts v (n + 1))))"

definition inferFieldType :: "builtins \<Rightarrow> jsval list \<Rightarrow> string" where
  "inferFieldType b values =
     (case values of
        [] \<Rightarrow> ''string''
      | sample # _ \<Rightarrow>
          (case sample of
             Bool _ \<Rightarrow> ''boolean''
           | Num _ \<Rightarrow> ''number''
           | DateV _ \<Rightarrow> ''date''
           | _ \<Rightarrow>
               if list_all (\<lambda>v. ToNumber b v \<noteq> NaN) values then ''number''
               else if list_all (\<lambda>v. Date_parse b (ToString b v) \<noteq> None) values then ''date''
               else ''string''))"

text \<open>The body of the first \<^verbatim>\<open>forEach\<close> of \<^verbatim>\<open>updateFieldStats\<close>, for one entry.\<close>

definition count_entry ::
  "(string \<times> (jsval \<times> nat) list) list \<Rightarrow> LogEntry \<Rightarrow> (string \<times> (jsval \<times> nat) list) list" where
  "count_entry fieldCounts entry =
     (let fc = updateFieldStat fieldCounts ''level'' (Str (level entry));
          fc = updateFieldStat fc ''file'' (Str (file' entry));
          fc = updateFieldStat fc ''source'' (source entry);
          fc = updateFieldStat fc ''service'' (service entry);
          fc = updateFieldStat fc ''host'' (host entry)
      in case fields' entry of
           None \<Rightarrow> fc
         | Some ps \<Rightarrow> fold (\<lambda>(key, v) fc. updateFieldStat fc key v) ps fc)"

text \<open>The body of the second \<^verbatim>\<open>forEach\<close>: one suggestion per field of the table.\<close>

definition set_suggestion ::
  "builtins \<Rightarrow> string \<times> (jsval \<times> nat) list \<Rightarrow> (string \<times> FieldSuggestion) list
     \<Rightarrow> (string \<times> FieldSuggestion) list" where
  "set_suggestion b fv stats =
     (let values = map fst (snd fv)
      in Map_set (=) stats (fst fv)
           \<lparr>sfield = fst fv, type' = inferFieldType b values,
            cardinality = length values, examples = take 10 values\<rparr>)"

definition updateFieldStats ::
  "builtins \<Rightarrow> 'ms LogSearchIndex \<Rightarrow> LogEntry list \<Rightarrow> 'ms LogSearchIndex" where
  "updateFieldStats b idx es =
     (let fieldCounts = fold (\<lambda>entry fc. count_entry fc entry) es []
      in idx\<lparr>fieldStats := fold (set_suggestion b) fieldCounts (fieldStats idx)\<rparr>)"

text \<open>
  \<^verbatim>\<open>addEntries\<close>: when \<^verbatim>\<open>miniSearch.addAll\<close> throws, the promise is rejected with the
  entries and the statistics as they were.
\<close>

definition addEntries ::
  "'ms MiniSearch \<Rightarrow> builtins \<Rightarrow> 'ms LogSearchIndex \<Rightarrow> LogEntry list
     \<Rightarrow> unit outcome \<times> 'ms LogSearchIndex" where
  "addEntries ms b idx es =
     (case ms_addAll ms (miniSearch idx) es of
        (m, Some err) \<Rightarrow> (Throw err, idx\<lparr>miniSearch := m\<rparr>)
      | (m, None) \<Rightarrow>
          (let idx = idx\<lparr>miniSearch := m\<rparr>;
               idx = idx\<lparr>index_entries :=
                        fold (\<lambda>entry m. Map_set (=) m (id' entry) entry) es (index_entries idx)\<rparr>
           in (Return (), updateFieldStats b idx es)))"

definition getFieldSuggestions :: "'ms LogSearchIndex \<Rightarrow> FieldSuggestion list" where
  "getFieldSuggestions idx = map snd (fieldStats idx)"

subsection \<open>Notions for the statements about the index\<close>

text \<open>The records of the index whose timestamp lies in a time range, ends included.\<close>

definition in_time_range :: "TimeRange \<Rightarrow> LogEntry \<Rightarrow> bool" where
  "in_time_range r entry =
     (date_le (from' r) (timestamp entry) \<and> date_le (timestamp entry) (to' r))"

text \<open>
  The pairs of field and value that \<open>count_entry\<close> passes to \<open>updateFieldStat\<close> for a
  record, in the order of the calls, and the values that are counted for a field over a
  list of records: those of the pairs of that field that are neither undefined nor null.
\<close>

definition entry_pairs :: "LogEntry \<Rightarrow> (string \<times> jsval) list" where
  "entry_pairs entry =
     [(''level'', Str (level entry)), (''file'', Str (file' entry)), (''source'', source entry),
      (''service'', service entry), (''host'', host entry)]
     @ (case fields' entry of None \<Rightarrow> [] | Some ps \<Rightarrow> ps)"

definition observed :: "string \<Rightarrow> LogEntry list \<Rightarrow> jsval list" where
  "observed fld es =
     map snd (filter (\<lambda>kv. fst kv = fld \<and> \<not> absent (snd kv)) (concat (map entry_pairs es)))"

text \<open>
  The statistics are well formed when every field has one suggestion, stored under its
  own name; the statistics of an index that \<open>addEntries\<close> built are.
\<close>

definition wf_stats :: "(string \<times> FieldSuggestion) list \<Rightarrow> bool" where
  "wf_stats stats = (distinct (map fst stats) \<and> list_all (\<lambda>ks. sfield (snd ks) = fst ks) stats)"

text \<open>What the table of counts holds after the values \<open>vals f\<close> of each field \<open>f\<close>.\<close>

definition counts_of :: "(string \<times> (jsval \<times> nat) list) list \<Rightarrow> (string \<Rightarrow> jsval list) \<Rightarrow> bool" where
  "counts_of fc vals =
     (distinct (map fst fc) \<and>
      (\<forall>f. case Map_get (=) fc f of
             None \<Rightarrow> vals f = []
           | Some vc \<Rightarrow> vals f \<noteq> [] \<and> distinct (map (ident \<circ> fst) vc)
                        \<and> set (map (ident \<circ> fst) vc) = ident ` set (vals f)))"

text \<open>The suggestion that \<open>set_suggestion\<close> stores for a field and its table.\<close>

definition suggestion_of :: "builtins \<Rightarrow> string \<Rightarrow> (jsval \<times> nat) list \<Rightarrow> FieldSuggestion" where
  "suggestion_of b f vc =
     \<lparr>sfield = f, type' = inferFieldType b (map fst vc), cardinality = length vc,
      examples = take 10 (map fst vc)\<rparr>"

section \<open>Regular expressions\<close>

text \<open>
  The regular expressions of the source are written as terms of a datatype and run by a
  backtracking matcher that follows the ECMAScript semantics for the constructs they use:
  greedy quantifiers, alternatives tried from the left, capture groups, \<^verbatim>\<open>^\<close>, \<^verbatim>\<open>$\<close>
  (without the multi-line flag), \<^verbatim>\<open>\b\<close>, classes, and the flag \<^verbatim>\<open>i\<close>, under which two
  characters match when their upper-case forms are equal. No expression of the source
  has a capture group under a quantifier.
\<close>

datatype cset = Chars string | Digit | WordC | SpaceC

datatype regex =
    Empty
  | Lit char
  | Dot
  | Class bool "cset list"  \<comment> \<open>\<open>True\<close>: negated\<close>
  | Seq regex regex
  | Alt regex regex
  | Rep nat "nat option" regex  \<comment> \<open>\<^verbatim>\<open>{min,max}\<close>, greedy; no maximum: \<open>None\<close>\<close>
  | Group nat regex
  | Bol
  | Eol
  | WordBoundary

text \<open>
  The state of a match: the input before the current position, reversed, the input from
  it on, and the captures made so far, the latest first.
\<close>

record mstate =
  seen :: string
  rest :: string
  groups :: "(nat \<times> string) list"

definition in_cset :: "bool \<Rightarrow> char \<Rightarrow> cset \<Rightarrow> bool" where
  "in_cset ic x cs =
     (case cs of
        Chars l \<Rightarrow> (if ic then upper_char x \<in> upper_char ` set l else x \<in> set l)
      | Digit \<Rightarrow> is_digit x
      | WordC \<Rightarrow> is_word x
      | SpaceC \<Rightarrow> is_space x)"

definition advance :: "mstate \<Rightarrow> mstate" where
  "advance s = (case rest s of [] \<Rightarrow> s | x # xs \<Rightarrow> s\<lparr>seen := x # seen s, rest := xs\<rparr>)"

text \<open>One character that satisfies \<open>p\<close>.\<close>

definition one_char :: "(char \<Rightarrow> bool) \<Rightarrow> (mstate \<Rightarrow> mstate option) \<Rightarrow> mstate \<Rightarrow> mstate option" where
  "one_char p k s = (case rest s of [] \<Rightarrow> None | x # xs \<Rightarrow> if p x then k (advance s) else None)"

text \<open>
  A quantifier: \<open>mn\<close> iterations that must succeed, then as many more as the maximum
  allows, each of which must consume input, most iterations first. \<open>fuel\<close> bounds the
  optional iterations and is the length of the input that is left, which they cannot
  exceed since each consumes a character.
\<close>

fun repeat ::
  "((mstate \<Rightarrow> mstate option) \<Rightarrow> mstate \<Rightarrow> mstate option) \<Rightarrow> nat \<Rightarrow> nat option \<Rightarrow> nat
     \<Rightarrow> (mstate \<Rightarrow> mstate option) \<Rightarrow> mstate \<Rightarrow> mstate option" where
  "repeat m (Suc mn) mx fuel k s =
     m (\<lambda>s'. repeat m mn (map_option (\<lambda>n. n - 1) mx) fuel k s') s"
| "repeat m 0 mx 0 k s = k s"
| "repeat m 0 mx (Suc fuel) k s =
     (if mx = Some 0 then k s
      else (case m (\<lambda>s'. if length (rest s') < length (rest s)
                          then repeat m 0 (map_option (\<lambda>n. n - 1) mx) fuel k s' else None) s of
              Some r \<Rightarrow> Some r
            | None \<Rightarrow> k s))"

definition is_word_at :: "string \<Rightarrow> bool" where
  "is_word_at cs = (case cs of [] \<Rightarrow> False | x # xs \<Rightarrow> is_word x)"

primrec rmatch :: "bool \<Rightarrow> regex \<Rightarrow> (mstate \<Rightarrow> mstate option) \<Rightarrow> mstate \<Rightarrow> mstate option" where
  "rmatch ic Empty k s = k s"
| "rmatch ic (Lit c) k s =
     one_char (\<lambda>x. if ic then upper_char x = upper_char c else x = c) k s"
| "rmatch ic Dot k s = one_char (\<lambda>x. x \<noteq> CHR 0x0A \<and> x \<noteq> CHR 0x0D) k s"
| "rmatch ic (Class neg items) k s = one_char (\<lambda>x. list_ex (in_cset ic x) items \<noteq> neg) k s"
| "rmatch ic (Seq r1 r2) k s = rmatch ic r1 (rmatch ic r2 k) s"
| "rmatch ic (Alt r1 r2) k s =
     (case rmatch ic r1 k s of Some r \<Rightarrow> Some r | None \<Rightarrow> rmatch ic r2 k s)"
| "rmatch ic (Rep mn mx r) k s = repeat (rmatch ic r) mn mx (length (rest s)) k s"
| "rmatch ic (Group n r) k s =
     rmatch ic r
       (\<lambda>s'. k (s'\<lparr>groups :=
                   (n, rev (take (length (seen s') - length (seen s)) (seen s')))
                   # groups s'\<rparr>)) s"
| "rmatch ic Bol k s = (if seen s = [] then k s else None)"
| "rmatch ic Eol k s = (if rest s = [] then k s else None)"
| "rmatch ic WordBoundary k s =
     (if is_word_at (seen s) \<noteq> is_word_at (rest s) then k s else None)"

text \<open>
  \<^verbatim>\<open>RegExp.prototype.exec\<close> without the global flag: the first position, from the left,
  at which the expression matches. The result is the state at the start of the match and
  the state at its end.
\<close>

fun exec_from :: "bool \<Rightarrow> regex \<Rightarrow> string \<Rightarrow> string \<Rightarrow> (mstate \<times> mstate) option" where
  "exec_from ic r pre [] =
     (case rmatch ic r Some \<lparr>seen = pre, rest = [], groups = []\<rparr> of
        Some f \<Rightarrow> Some (\<lparr>seen = pre, rest = [], groups = []\<rparr>, f)
      | None \<Rightarrow> None)"
| "exec_from ic r pre (x # xs) =
     (case rmatch ic r Some \<lparr>seen = pre, rest = x # xs, groups = []\<rparr> of
        Some f \<Rightarrow> Some (\<lparr>seen = pre, rest = x # xs, groups = []\<rparr>, f)
      | None \<Rightarrow> exec_from ic r (x # pre) xs)"

text \<open>
  \<^verbatim>\<open>s.match(re)\<close>: the captures of the first match, \<open>None\<close> when there is no match;
  \<^verbatim>\<open>match[n]\<close> is \<open>group m n\<close>, \<open>None\<close> for undefined. \<^verbatim>\<open>re.test(s)\<close>.
\<close>

definition regex_match :: "bool \<Rightarrow> regex \<Rightarrow> string \<Rightarrow> (nat \<times> string) list option" where
  "regex_match ic r s = map_option (\<lambda>(s0, f). groups f) (exec_from ic r [] s)"

definition group :: "(nat \<times> string) list \<Rightarrow> nat \<Rightarrow> string option" where
  "group m n = map_of m n"

definition regex_test :: "bool \<Rightarrow> regex \<Rightarrow> string \<Rightarrow> bool" where
  "regex_test ic r s = (exec_from ic r [] s \<noteq> None)"

text \<open>The number of capture groups of an expression: \<^verbatim>\<open>match.length\<close> is one more.\<close>

primrec ngroups :: "regex \<Rightarrow> nat" where
  "ngroups Empty = 0"
| "ngroups (Lit c) = 0"
| "ngroups Dot = 0"
| "ngroups (Class neg items) = 0"
| "ngroups (Seq r1 r2) = ngroups r1 + ngroups r2"
| "ngroups (Alt r1 r2) = ngroups r1 + ngroups r2"
| "ngroups (Rep mn mx r) = ngroups r"
| "ngroups (Group n r) = Suc (ngroups r)"
| "ngroups Bol = 0"
| "ngroups Eol = 0"
| "ngroups WordBoundary = 0"

text \<open>Shorthands for writing the expressions.\<close>

definition seqs :: "regex list \<Rightarrow> regex" where
  "seqs rs = foldr Seq rs Empty"

definition alts :: "regex list \<Rightarrow> regex" where
  "alts rs = (case rs of [] \<Rightarrow> Empty | _ \<Rightarrow> foldr Alt (butlast rs) (last rs))"

definition word :: "string \<Rightarrow> regex" where
  "word w = seqs (map Lit w)"

definition digits :: "nat \<Rightarrow> regex" where
  "digits n = Rep n (Some n) (Class False [Digit])"

definition opt :: "regex \<Rightarrow> regex" where
  "opt r = Rep 0 (Some 1) r"

definition star :: "regex \<Rightarrow> regex" where
  "star r = Rep 0 None r"

definition plus :: "regex \<Rightarrow> regex" where
  "plus r = Rep 1 None r"

definition spaces :: regex where
  "spaces = Class False [SpaceC]"

subsection \<open>Capture groups of a match\<close>

text \<open>The capture groups that are set whenever the expression matches.\<close>

primrec definite :: "regex \<Rightarrow> nat set" where
  "definite Empty = {}"
| "definite (Lit c) = {}"
| "definite Dot = {}"
| "definite (Class neg items) = {}"
| "definite (Seq r1 r2) = definite r1 \<union> definite r2"
| "definite (Alt r1 r2) = definite r1 \<inter> definite r2"
| "definite (Rep mn mx r) = (if mn > 0 then definite r else {})"
| "definite (Group n r) = insert n (definite r)"
| "definite Bol = {}"
| "definite Eol = {}"
| "definite WordBoundary = {}"

text \<open>
  The input of a state, what it means that the captures of a state are parts of its
  input, and the relation of a state to a later state of the same match.
\<close>

definition input_of :: "mstate \<Rightarrow> string" where
  "input_of s = rev (seen s) @ rest s"

definition good :: "mstate \<Rightarrow> bool" where
  "good s = (\<forall>nc \<in> set (groups s). sublist (snd nc) (input_of s))"

definition step :: "nat set \<Rightarrow> mstate \<Rightarrow> mstate \<Rightarrow> bool" where
  "step D s s' =
     (input_of s' = input_of s \<and> (good s \<longrightarrow> good s')
      \<and> fst ` set (groups s) \<union> D \<subseteq> fst ` set (groups s'))"

section \<open>Log parser (lib/parse: LogParser)\<close>

subsection \<open>The patterns\<close>

text \<open>\<^verbatim>\<open>\d{4}-\d{2}-\d{2}[T\s]\d{2}:\d{2}:\d{2}\<close>, the common part of the ISO patterns.\<close>

definition iso_date_time :: regex where
  "iso_date_time =
     seqs [digits 4, Lit CHR ''-'', digits 2, Lit CHR ''-'', digits 2,
           Class False [Chars ''T'', SpaceC],
           digits 2, Lit CHR '':'', digits 2, Lit CHR '':'', digits 2]"

text \<open>\<^verbatim>\<open>(?:\.\d+)?\<close> and \<^verbatim>\<open>(?:Z|[+\-]\d{2}:?\d{2})?\<close>\<close>

definition fraction :: regex where
  "fraction = opt (Seq (Lit CHR ''.'') (plus (Class False [Digit])))"

definition zone :: regex where
  "zone = opt (Alt (Lit CHR ''Z'')
                (seqs [Class False [Chars ''+-''], digits 2, opt (Lit CHR '':''), digits 2]))"

text \<open>\<^verbatim>\<open>\d{2}:\d{2}:\d{2}\<close>\<close>

definition hms :: regex where
  "hms = seqs [digits 2, Lit CHR '':'', digits 2, Lit CHR '':'', digits 2]"

text \<open>\<^verbatim>\<open>TIMESTAMP_PATTERNS\<close>, none of which has a flag.\<close>

definition TIMESTAMP_PATTERNS :: "regex list" where
  "TIMESTAMP_PATTERNS =
     [Seq Bol (Group 1 (seqs [iso_date_time, fraction, zone])),
      Seq Bol (Group 1 (seqs [iso_date_time,
                              opt (Seq (Lit CHR ''.'') (digits 3)), opt (Lit CHR ''Z'')])),
      Seq Bol (Group 1 (seqs [digits 2, Lit CHR ''/'', digits 2, Lit CHR ''/'', digits 4,
                              plus spaces, hms])),
      Seq Bol (Group 1 (seqs [digits 4, Lit CHR ''/'', digits 2, Lit CHR ''/'', digits 2,
                              plus spaces, hms])),
      Seq Bol (Group 1 (seqs [Rep 3 (Some 3) (Class False [WordC]), plus spaces,
                              Rep 1 (Some 2) (Class False [Digit]), plus spaces, hms])),
      Seq Bol (Group 1 (Rep 10 (Some 13) (Class False [Digit])))]"

text \<open>\<^verbatim>\<open>TRACE|DEBUG|INFO|WARN|WARNING|ERROR|FATAL\<close>, and the same with \<^verbatim>\<open>|CRITICAL\<close>.\<close>

definition level_names :: regex where
  "level_names = alts (map word [''TRACE'', ''DEBUG'', ''INFO'', ''WARN'', ''WARNING'',
                                 ''ERROR'', ''FATAL''])"

definition level_names_critical :: regex where
  "level_names_critical =
     alts (map word [''TRACE'', ''DEBUG'', ''INFO'', ''WARN'', ''WARNING'', ''ERROR'', ''FATAL'',
                     ''CRITICAL''])"

text \<open>\<^verbatim>\<open>LEVEL_PATTERNS\<close>, all with the flag \<^verbatim>\<open>i\<close>.\<close>

definition LEVEL_PATTERNS :: "regex list" where
  "LEVEL_PATTERNS =
     [seqs [WordBoundary, Group 1 level_names_critical, WordBoundary],
      seqs [Lit CHR ''['', Group 1 level_names_critical, Lit CHR '']''],
      seqs [word ''level'', Class False [Chars ''=:''], star spaces,
            Group 1 level_names_critical]]"

text \<open>The four patterns of \<^verbatim>\<open>parseTextLine\<close>, all with the flag \<^verbatim>\<open>i\<close>.\<close>

definition text_patterns :: "regex list" where
  "text_patterns =
     [seqs [Bol, Group 1 (seqs [iso_date_time, fraction, zone]), plus spaces,
            Group 2 level_names, WordBoundary, star spaces, Group 3 (star Dot), Eol],
      seqs [Bol, Group 1 (seqs [iso_date_time, fraction]), star spaces,
            Lit CHR ''['', Group 2 level_names, Lit CHR '']'', star spaces,
            Group 3 (star Dot), Eol],
      seqs [Bol, Group 1 level_names, plus spaces,
            Group 2 (seqs [iso_date_time, fraction]), star spaces, Group 3 (star Dot), Eol],
      seqs [Bol, Group 1 level_names, star spaces, Class False [Chars '':-'', SpaceC],
            star spaces, Group 2 (star Dot), Eol]]"

subsection \<open>The parser\<close>

text \<open>
  What a call reads from its surroundings: the clock, the address at which the
  \<^verbatim>\<open>Date\<close> it creates is allocated, and the digits that \<^verbatim>\<open>Math.random\<close> contributes
  to the id.
\<close>

record ambient =
  now :: int
  fresh :: addr
  random36 :: string

function base36 :: "int \<Rightarrow> string" where
  "base36 n =
     (if n < 36 then [''0123456789abcdefghijklmnopqrstuvwxyz'' ! nat n]
      else base36 (n div 36) @ [''0123456789abcdefghijklmnopqrstuvwxyz'' ! nat (n mod 36)])"
  by pat_completeness auto
termination
  by (relation "measure nat") auto

declare base36.simps [simp del]

text \<open>\<^verbatim>\<open>Math.random().toString(36).substring(2) + Date.now().toString(36)\<close>\<close>

definition generateId :: "ambient \<Rightarrow> string" where
  "generateId amb = random36 amb @ base36 (now amb)"

text \<open>
  \<^verbatim>\<open>new Date(t)\<close> on a number: no time value for NaN, an infinity or a magnitude above
  \<open>8.64e15\<close>; else the number without its fraction.
\<close>

definition TimeClip :: "number \<Rightarrow> int option" where
  "TimeClip n =
     (case n of
        Fin x \<Rightarrow> (if \<bar>x\<bar> > 8640000000000000 then None
                  else Some (if x \<ge> 0 then \<lfloor>x\<rfloor> else \<lceil>x\<rceil>))
      | _ \<Rightarrow> None)"

text \<open>\<^verbatim>\<open>n * c\<close> for a finite constant \<open>c\<close> above zero: the exact product, rounded.\<close>

definition num_times :: "number \<Rightarrow> rat \<Rightarrow> number" where
  "num_times n c = (case n of Fin x \<Rightarrow> round_double (x * c) | _ \<Rightarrow> n)"

definition parseTimestamp :: "builtins \<Rightarrow> ambient \<Rightarrow> jsval \<Rightarrow> Date" where
  "parseTimestamp b amb v =
     (case v of
        DateV d \<Rightarrow> d
      | Num n \<Rightarrow>
          (let t = (if num_lt n (Fin 1000000000000) then num_times n 1000 else n)
           in Date (fresh amb) (TimeClip t))
      | Str s \<Rightarrow>
          (case Date_parse b s of
             Some t \<Rightarrow> Date (fresh amb) (Some t)
           | None \<Rightarrow> Date (fresh amb) (Some (now amb)))
      | _ \<Rightarrow> Date (fresh amb) (Some (now amb)))"

definition looksLikeTimestamp :: "string \<Rightarrow> bool" where
  "looksLikeTimestamp v = list_ex (\<lambda>pattern. regex_test False pattern v) TIMESTAMP_PATTERNS"

definition extractTimestampFromText :: "builtins \<Rightarrow> ambient \<Rightarrow> string \<Rightarrow> Date option" where
  "extractTimestampFromText b amb text =
     (case List.find (\<lambda>pattern. regex_match False pattern text \<noteq> None) TIMESTAMP_PATTERNS of
        None \<Rightarrow> None
      | Some pattern \<Rightarrow>
          (case regex_match False pattern text of
             None \<Rightarrow> None
           | Some m \<Rightarrow>
               Some (parseTimestamp b amb
                       (case group m 1 of Some s \<Rightarrow> Str s | None \<Rightarrow> Undefined))))"

definition detectLevelInText :: "string \<Rightarrow> string" where
  "detectLevelInText text =
     (case List.find (\<lambda>pattern. regex_match True pattern text \<noteq> None) LEVEL_PATTERNS of
        Some pattern \<Rightarrow>
          (case regex_match True pattern text of
             Some m \<Rightarrow> (case group m 1 of Some s \<Rightarrow> normalizeLogLevel s | None \<Rightarrow> ''INFO'')
           | None \<Rightarrow> ''INFO'')
      | None \<Rightarrow>
          (let lowerText = toLowerCase text in
           if str_includes lowerText ''fatal'' \<or> str_includes lowerText ''critical'' then ''FATAL''
           else if str_includes lowerText ''error'' \<or> str_includes lowerText ''exception''
                   \<or> str_includes lowerText ''fail'' then ''ERROR''
           else if str_includes lowerText ''warn'' \<or> str_includes lowerText ''warning''
                then ''WARN''
           else if str_includes lowerText ''debug'' then ''DEBUG''
           else if str_includes lowerText ''trace'' then ''TRACE''
           else ''INFO''))"

text \<open>
  The properties of the value of \<^verbatim>\<open>JSON.parse\<close>. The parser calls it on a line that
  starts with a brace, where it gives an object or throws; no other value is modelled.
\<close>

definition props :: "jsval \<Rightarrow> (string \<times> jsval) list" where
  "props v = (case v of Obj a ps \<Rightarrow> ps | _ \<Rightarrow> [])"

definition timestampFields :: "string list" where
  "timestampFields = [''@timestamp'', ''timestamp'', ''ts'', ''time'', ''datetime'']"

definition levelFields :: "string list" where
  "levelFields = [''level'', ''severity'', ''priority'', ''loglevel'']"

definition messageFields :: "string list" where
  "messageFields = [''message'', ''msg'', ''text'', ''content'', ''description'']"

definition extractTimestamp :: "builtins \<Rightarrow> ambient \<Rightarrow> jsval \<Rightarrow> Date" where
  "extractTimestamp b amb json =
     (case List.find (\<lambda>fld. truthy (get_property (props json) fld)) timestampFields of
        Some fld \<Rightarrow> parseTimestamp b amb (get_property (props json) fld)
      | None \<Rightarrow> Date (fresh amb) (Some (now amb)))"

text \<open>
  \<^verbatim>\<open>normalizeLogLevel(json[field])\<close> calls \<^verbatim>\<open>toUpperCase\<close> on the value, which throws
  a TypeError when the value is not a string.
\<close>

definition extractLevel :: "builtins \<Rightarrow> jsval \<Rightarrow> string outcome" where
  "extractLevel b json =
     (case List.find (\<lambda>fld. truthy (get_property (props json) fld)) levelFields of
        Some fld \<Rightarrow>
          (case get_property (props json) fld of
             Str s \<Rightarrow> Return (normalizeLogLevel s)
           | _ \<Rightarrow> Throw ''TypeError: level.toUpperCase is not a function'')
      | None \<Rightarrow> Return (detectLevelInText (JSON_stringify b json)))"

definition is_string :: "jsval \<Rightarrow> bool" where
  "is_string v = (case v of Str s \<Rightarrow> True | _ \<Rightarrow> False)"

definition extractMessage :: "builtins \<Rightarrow> jsval \<Rightarrow> string" where
  "extractMessage b json =
     (case List.find (\<lambda>fld. truthy (get_property (props json) fld)
                          \<and> is_string (get_property (props json) fld)) messageFields of
        Some fld \<Rightarrow> ToString b (get_property (props json) fld)
      | None \<Rightarrow> JSON_stringify b json)"

text \<open>The keys that \<^verbatim>\<open>parseJsonLine\<close> deletes from the copy of the payload.\<close>

definition deleted_keys :: "string list" where
  "deleted_keys = [''timestamp'', ''ts'', ''time'', ''@timestamp'', ''level'', ''severity'',
                   ''message'', ''msg'']"

definition parseJsonLine ::
  "builtins \<Rightarrow> ambient \<Rightarrow> string \<Rightarrow> string \<Rightarrow> int \<Rightarrow> LogEntry option outcome" where
  "parseJsonLine b amb line fileName n =
     (case JSON_parse b line of
        Inl e \<Rightarrow> Throw (''JSON parsing failed: '' @ e)
      | Inr json \<Rightarrow>
          (let ts = extractTimestamp b amb json in
           case extractLevel b json of
             Throw e \<Rightarrow> Throw (''JSON parsing failed: '' @ e)
           | Return lvl \<Rightarrow>
               (let msg = extractMessage b json;
                    flds = filter (\<lambda>kv. fst kv \<notin> set deleted_keys) (props json)
                in Return (Some
                     \<lparr>id' = generateId amb, timestamp = ts, level = lvl,
                      message = msg, file' = fileName, raw = line, fields' = Some flds,
                      source = or_else (get_property (props json) ''source'')
                                 (or_else (get_property (props json) ''logger'') (Str fileName)),
                      service = or_else (get_property (props json) ''service'')
                                  (or_else (get_property (props json) ''app'')
                                     (get_property (props json) ''component'')),
                      host = or_else (get_property (props json) ''host'')
                               (get_property (props json) ''hostname''),
                      lineNumber = Some n\<rparr>))))"

text \<open>
  One round of the loop of \<^verbatim>\<open>parseTextLine\<close>: \<open>None\<close> when the pattern does not match
  or the round ends in \<^verbatim>\<open>continue\<close>. A string method called on a group that is
  undefined throws a TypeError.
\<close>

definition text_entry ::
  "ambient \<Rightarrow> string \<Rightarrow> string \<Rightarrow> int \<Rightarrow> Date \<Rightarrow> string \<Rightarrow> string \<Rightarrow> LogEntry" where
  "text_entry amb line fileName n ts lvl msg =
     \<lparr>id' = generateId amb, timestamp = ts, level = lvl, message = msg, file' = fileName,
      raw = line, fields' = None, source = Str fileName, service = Undefined,
      host = Undefined, lineNumber = Some n\<rparr>"

definition looksLikeTimestamp_group :: "string option \<Rightarrow> bool" where
  "looksLikeTimestamp_group g =
     looksLikeTimestamp (case g of Some s \<Rightarrow> s | None \<Rightarrow> ''undefined'')"

definition try_pattern ::
  "builtins \<Rightarrow> ambient \<Rightarrow> string \<Rightarrow> string \<Rightarrow> int \<Rightarrow> regex \<Rightarrow> LogEntry option outcome option" where
  "try_pattern b amb line fileName n pattern =
     (case regex_match True pattern line of
        None \<Rightarrow> None
      | Some m \<Rightarrow>
          if Suc (ngroups pattern) = 4 \<and> looksLikeTimestamp_group (group m 1) then
            (case (group m 1, group m 2, group m 3) of
               (Some g1, Some g2, Some g3) \<Rightarrow>
                 Some (Return (Some (text_entry amb line fileName n
                         (parseTimestamp b amb (Str g1)) (normalizeLogLevel g2) (trim g3))))
             | _ \<Rightarrow> Some (Throw ''TypeError''))
          else if Suc (ngroups pattern) = 4 \<and> looksLikeTimestamp_group (group m 2) then
            (case (group m 1, group m 2, group m 3) of
               (Some g1, Some g2, Some g3) \<Rightarrow>
                 Some (Return (Some (text_entry amb line fileName n
                         (parseTimestamp b amb (Str g2)) (normalizeLogLevel g1) (trim g3))))
             | _ \<Rightarrow> Some (Throw ''TypeError''))
          else if Suc (ngroups pattern) = 3 then
            (case (group m 1, group m 2) of
               (Some g1, Some g2) \<Rightarrow>
                 Some (Return (Some (text_entry amb line fileName n
                         (Date (fresh amb) (Some (now amb))) (normalizeLogLevel g1) (trim g2))))
             | _ \<Rightarrow> Some (Throw ''TypeError''))
          else None)"

fun first_pattern ::
  "builtins \<Rightarrow> ambient \<Rightarrow> string \<Rightarrow> string \<Rightarrow> int \<Rightarrow> regex list \<Rightarrow> LogEntry option outcome option" where
  "first_pattern b amb line fileName n [] = None"
| "first_pattern b amb line fileName n (pattern # patterns) =
     (case try_pattern b amb line fileName n pattern of
        Some r \<Rightarrow> Some r
      | None \<Rightarrow> first_pattern b amb line fileName n patterns)"

definition parseTextLine ::
  "builtins \<Rightarrow> ambient \<Rightarrow> string \<Rightarrow> string \<Rightarrow> int \<Rightarrow> LogEntry option outcome" where
  "parseTextLine b amb line fileName n =
     (case first_pattern b amb line fileName n text_patterns of
        Some r \<Rightarrow> r
      | None \<Rightarrow>
          (let detectedLevel = detectLevelInText line;
               ts = (case extractTimestampFromText b amb line of
                       Some d \<Rightarrow> d
                     | None \<Rightarrow> Date (fresh amb) (Some (now amb)))
           in Return (Some (text_entry amb line fileName n ts detectedLevel line))))"

definition looksLikeJson :: "string \<Rightarrow> bool" where
  "looksLikeJson line = (startsWith (trim line) ''{'' \<and> endsWith (trim line) ''}'')"

text \<open>\<^verbatim>\<open>parseLine\<close>; \<open>enableJsonDetection\<close> is the option of that name, true by default.\<close>

definition parseLine ::
  "builtins \<Rightarrow> ambient \<Rightarrow> bool \<Rightarrow> string \<Rightarrow> string \<Rightarrow> int \<Rightarrow> LogEntry option outcome" where
  "parseLine b amb enableJsonDetection line fileName n =
     (if trim line = [] then Return None
      else if enableJsonDetection \<and> looksLikeJson line then parseJsonLine b amb line fileName n
      else parseTextLine b amb line fileName n)"

text \<open>
  The options of the parser after the constructor has merged the defaults into them:
  \<open>enableJsonDetection\<close> is the truth value of the option, \<open>maxErrors\<close> the option as
  given, \<open>None\<close> when it was passed as \<^verbatim>\<open>undefined\<close>. The default is
  \<^verbatim>\<open>{ enableJsonDetection: true, maxErrors: 1000 }\<close>.
\<close>

record ParseOptions =
  enableJsonDetection :: bool
  maxErrors :: "number option"

definition default_options :: ParseOptions where
  "default_options = \<lparr>enableJsonDetection = True, maxErrors = Some (Fin 1000)\<rparr>"

record ParseError =
  line' :: int
  content' :: string
  error :: string

record ParsedLog =
  entries' :: "LogEntry list"
  errors :: "ParseError list"
  totalLines :: nat
  fileName' :: string
  fileSize :: nat

text \<open>A \<^verbatim>\<open>File\<close>: \<open>file_text\<close> is what \<^verbatim>\<open>file.text()\<close> resolves to, or \<open>Inl e\<close> when it
  rejects with an error that prints as \<open>e\<close>.\<close>

record File =
  file_name :: string
  file_size :: nat
  file_text :: "string + string"

text \<open>\<^verbatim>\<open>addError\<close>, on the list of the errors so far; the bound is \<^verbatim>\<open>maxErrors || 1000\<close>.\<close>

definition addError :: "ParseOptions \<Rightarrow> ParseError list \<Rightarrow> int \<Rightarrow> string \<Rightarrow> string \<Rightarrow> ParseError list" where
  "addError opts errs k c e =
     (let bound = (case maxErrors opts of
                     Some m \<Rightarrow> if truthy (Num m) then m else Fin 1000
                   | None \<Rightarrow> Fin 1000)
      in if num_lt (Fin (of_nat (length errs))) bound
         then errs @ [\<lparr>line' = k, content' = c, error = e\<rparr>]
         else errs)"

text \<open>\<^verbatim>\<open>text.split('\n')\<close>\<close>

fun split_lines :: "string \<Rightarrow> string list" where
  "split_lines [] = [[]]"
| "split_lines (c # cs) =
     (if c = CHR 0x0A then [] # split_lines cs
      else (case split_lines cs of
              l # ls \<Rightarrow> (c # l) # ls
            | [] \<Rightarrow> [[c]]))"

text \<open>
  The loop of \<^verbatim>\<open>parseFile\<close> over the lines, from the index \<open>i\<close>; \<open>amb i\<close> is what the
  call of \<^verbatim>\<open>parseLine\<close> on line \<open>i\<close> reads from its surroundings. An error caught here
  is an \<^verbatim>\<open>Error\<close>, and its message is recorded.
\<close>

fun parse_lines ::
  "builtins \<Rightarrow> (nat \<Rightarrow> ambient) \<Rightarrow> ParseOptions \<Rightarrow> string \<Rightarrow> nat \<Rightarrow> string list
     \<Rightarrow> LogEntry list \<Rightarrow> ParseError list \<Rightarrow> LogEntry list \<times> ParseError list" where
  "parse_lines b amb opts fname i [] es errs = (es, errs)"
| "parse_lines b amb opts fname i (l # ls) es errs =
     (let line = trim l in
      if line = [] then parse_lines b amb opts fname (i + 1) ls es errs
      else
        (case parseLine b (amb i) (enableJsonDetection opts) line fname (int i + 1) of
           Return (Some entry) \<Rightarrow> parse_lines b amb opts fname (i + 1) ls (es @ [entry]) errs
         | Return None \<Rightarrow> parse_lines b amb opts fname (i + 1) ls es errs
         | Throw e \<Rightarrow>
             parse_lines b amb opts fname (i + 1) ls es (addError opts errs (int i + 1) line e)))"

definition parseFile :: "builtins \<Rightarrow> (nat \<Rightarrow> ambient) \<Rightarrow> ParseOptions \<Rightarrow> File \<Rightarrow> ParsedLog" where
  "parseFile b amb opts file =
     (case file_text file of
        Inl e \<Rightarrow>
          \<lparr>entries' = [], errors = addError opts [] 0 [] (''Failed to read file: '' @ e),
           totalLines = 0, fileName' = file_name file, fileSize = file_size file\<rparr>
      | Inr txt \<Rightarrow>
          (let lines = split_lines txt;
               (es, errs) = parse_lines b amb opts (file_name file) 0 lines [] []
           in \<lparr>entries' = es, errors = errs, totalLines = length lines,
               fileName' = file_name file, fileSize = file_size file\<rparr>))"

text \<open>The record that a call returned, if it returned one.\<close>

definition returned_entry :: "LogEntry option outcome \<Rightarrow> LogEntry option" where
  "returned_entry r = (case r of Return (Some e) \<Rightarrow> Some e | _ \<Rightarrow> None)"




section \<open>Query language parser (lib/kql: KQLParser)\<close>

datatype TokenType = FIELD | OPERATOR | VALUE | TEXT | PAREN | AND | OR | NOT

record Token =
  token_type :: TokenType
  token_value :: string
  token_position :: nat

text \<open>\<^verbatim>\<open>s.slice(a, b)\<close> for indices that are not negative.\<close>

definition slice :: "string \<Rightarrow> nat \<Rightarrow> nat \<Rightarrow> string" where
  "slice s a b = take (b - a) (drop a s)"

text \<open>
  The loop over a quoted string, from the index \<open>i\<close> after the opening quote, where the
  rest of the query is the first argument: it stops at the closing quote or at the end,
  and a backslash skips the character after it. The result is the index at which it stops.
\<close>

fun skip_quoted :: "string \<Rightarrow> nat \<Rightarrow> nat" where
  "skip_quoted [] i = i"
| "skip_quoted (c # cs) i =
     (if c = CHR 0x22 then i
      else if c = CHR 0x5C then (case cs of [] \<Rightarrow> i + 2 | d # ds \<Rightarrow> skip_quoted ds (i + 2))
      else skip_quoted cs (i + 1))"

text \<open>\<^verbatim>\<open>.replace(/\\"/g, '"')\<close>\<close>

fun unescape_quotes :: "string \<Rightarrow> string" where
  "unescape_quotes [] = []"
| "unescape_quotes [c] = [c]"
| "unescape_quotes (c # d # cs) =
     (if c = CHR 0x5C \<and> d = CHR 0x22 then d # unescape_quotes cs
      else c # unescape_quotes (d # cs))"

text \<open>The class \<^verbatim>\<open>[\s:()<>="]\<close> that ends a word.\<close>

definition word_end :: "char \<Rightarrow> bool" where
  "word_end c = (is_space c \<or> c \<in> set [CHR '':'', CHR ''('', CHR '')'', CHR ''<'', CHR ''>'',
                                        CHR ''='', CHR 0x22])"

definition findNextNonSpace :: "string \<Rightarrow> nat \<Rightarrow> nat" where
  "findNextNonSpace str start = start + length (takeWhile is_space (drop start str))"

text \<open>
  The loop of \<^verbatim>\<open>tokenize\<close>, from the index \<open>i\<close>. On the character \<^verbatim>\<open>=\<close> outside of
  quotes, brackets and comparison operators, the source reads an empty word, pushes a
  token and leaves \<open>i\<close> as it is: the loop does not end, and the function has no value
  there.
\<close>

partial_function (option) tokenize_loop :: "string \<Rightarrow> nat \<Rightarrow> Token list \<Rightarrow> Token list option" where
  "tokenize_loop query i tokens =
     (case drop i query of
        [] \<Rightarrow> Some tokens
      | c # cs \<Rightarrow>
          if is_space c then tokenize_loop query (i + 1) tokens
          else if c = CHR 0x22 then
            (let start = i;
                 j = skip_quoted cs (i + 1) + 1
             in tokenize_loop query j
                  (tokens @ [\<lparr>token_type = VALUE,
                              token_value = unescape_quotes (slice query (start + 1) (j - 1)),
                              token_position = start\<rparr>]))
          else if c = CHR '':'' then
            tokenize_loop query (i + 1)
              (tokens @ [\<lparr>token_type = OPERATOR, token_value = '':'', token_position = i\<rparr>])
          else if c = CHR ''('' \<or> c = CHR '')'' then
            tokenize_loop query (i + 1)
              (tokens @ [\<lparr>token_type = PAREN, token_value = [c], token_position = i\<rparr>])
          else if c = CHR ''['' then
            (let start = i;
                 j = i + length (takeWhile (\<lambda>x. x \<noteq> CHR '']'') (c # cs)) + 1
             in tokenize_loop query j
                  (tokens @ [\<lparr>token_type = VALUE, token_value = slice query start j,
                              token_position = start\<rparr>]))
          else if c = CHR ''>'' \<or> c = CHR ''<'' then
            (let op = (case cs of d # ds \<Rightarrow> if d = CHR ''='' then [c, d] else [c] | [] \<Rightarrow> [c]);
                 j = i + length op
             in tokenize_loop query j
                  (tokens @ [\<lparr>token_type = OPERATOR, token_value = op,
                              token_position = j - length op\<rparr>]))
          else
            (let start = i;
                 j = i + length (takeWhile (\<lambda>x. \<not> word_end x) (c # cs));
                 w = slice query start j
             in if toUpperCase w = ''AND'' then
                  tokenize_loop query j
                    (tokens @ [\<lparr>token_type = AND, token_value = toUpperCase w,
                                token_position = start\<rparr>])
                else if toUpperCase w = ''OR'' then
                  tokenize_loop query j
                    (tokens @ [\<lparr>token_type = OR, token_value = toUpperCase w,
                                token_position = start\<rparr>])
                else if toUpperCase w = ''NOT'' then
                  tokenize_loop query j
                    (tokens @ [\<lparr>token_type = NOT, token_value = toUpperCase w,
                                token_position = start\<rparr>])
                else
                  (let nextNonSpace = findNextNonSpace query j
                   in if nextNonSpace < length query \<and> query ! nextNonSpace = CHR '':'' then
                        tokenize_loop query j
                          (tokens @ [\<lparr>token_type = FIELD, token_value = w,
                                      token_position = start\<rparr>])
                      else
                        tokenize_loop query j
                          (tokens @ [\<lparr>token_type = TEXT, token_value = w,
                                      token_position = start\<rparr>]))))"

definition tokenize :: "string \<Rightarrow> Token list option" where
  "tokenize query = tokenize_loop query 0 []"

text \<open>
  \<^verbatim>\<open>s.split(re)\<close> for an expression that does not match the empty string, as the
  separator of the source: the pieces between the matches, found from the left.
\<close>

function split_loop :: "regex \<Rightarrow> string \<Rightarrow> string \<Rightarrow> string \<Rightarrow> string list" where
  "split_loop r pre piece [] = [rev piece]"
| "split_loop r pre piece (x # xs) =
     (case rmatch True r Some \<lparr>seen = pre, rest = x # xs, groups = []\<rparr> of
        None \<Rightarrow> split_loop r (x # pre) (x # piece) xs
      | Some f \<Rightarrow>
          if length (rest f) < length (x # xs)
          then rev piece # split_loop r (seen f) [] (rest f)
          else split_loop r (x # pre) (x # piece) xs)"
  by pat_completeness auto
termination
  by (relation "measure (\<lambda>(r, pre, piece, s). length s)") auto

text \<open>\<^verbatim>\<open>/\s+TO\s+/i\<close>\<close>

definition TO_separator :: regex where
  "TO_separator = seqs [plus spaces, word ''TO'', plus spaces]"

definition split_TO :: "string \<Rightarrow> string list" where
  "split_TO s = split_loop TO_separator [] [] s"

text \<open>
  \<^verbatim>\<open>parseValue\<close>; \<open>heap\<close> is the next free address, where the \<^verbatim>\<open>Date\<close> is allocated.
  The result is the value and the next free address.
\<close>

definition parseValue :: "builtins \<Rightarrow> addr \<Rightarrow> string \<Rightarrow> jsval \<times> addr" where
  "parseValue b heap v =
     (case String_to_number b v of
        Fin x \<Rightarrow> (Num (Fin x), heap)
      | _ \<Rightarrow>
          (case Date_parse b v of
             Some t \<Rightarrow> (DateV (Date heap (Some t)), heap + 1)
           | None \<Rightarrow> (Str v, heap + 1)))"

text \<open>The \<^verbatim>\<open>switch\<close> of \<^verbatim>\<open>createFilter\<close> on the operator; \<open>None\<close> is the default.\<close>

definition filterOperator :: "string \<Rightarrow> FilterOperator option" where
  "filterOperator op =
     (if op = '':'' then Some equals
      else if op = ''>'' then Some gt
      else if op = ''>='' then Some gte
      else if op = ''<'' then Some lt
      else if op = ''<='' then Some lte
      else None)"

definition createFilter ::
  "builtins \<Rightarrow> addr \<Rightarrow> string \<Rightarrow> string \<Rightarrow> string \<Rightarrow> QueryFilter option \<times> addr" where
  "createFilter b heap fld op v =
     (let parts = (if startsWith v ''['' \<and> endsWith v '']''
                   then split_TO (slice v 1 (length v - 1)) else [])
      in if startsWith v ''['' \<and> endsWith v '']'' \<and> length parts = 2 then
           (let (lo, h1) = parseValue b heap (parts ! 0);
                (hi, h2) = parseValue b h1 (parts ! 1)
            in (Some \<lparr>field = fld, operator = range, value' = Arr h2 [lo, hi], negate = False\<rparr>,
                h2 + 1))
         else
           (case filterOperator op of
              None \<Rightarrow> (None, heap)
            | Some fop \<Rightarrow>
                (let (x, h) = parseValue b heap v
                 in (Some \<lparr>field = fld, operator = fop, value' = x, negate = False\<rparr>, h))))"

datatype Expression = Filter QueryFilter | Text string

text \<open>
  The part of \<^verbatim>\<open>parseExpression\<close> for a token FIELD at \<open>position\<close>: the filter, if
  one is made, the position, after one, two or three \<^verbatim>\<open>advance\<close>, and the heap.
\<close>

definition field_expression ::
  "builtins \<Rightarrow> Token list \<Rightarrow> nat \<Rightarrow> addr \<Rightarrow> QueryFilter option \<times> nat \<times> addr" where
  "field_expression b tokens position heap =
     (let fld = token_value (tokens ! position);
          position = position + 1
      in if position < length tokens \<and> token_type (tokens ! position) = OPERATOR then
           (let op = token_value (tokens ! position);
                position = position + 1
            in if position < length tokens then
                 (let valueToken = tokens ! position;
                      position = position + 1
                  in case createFilter b heap fld op (token_value valueToken) of
                       (r, h) \<Rightarrow> (r, position, h))
               else (None, position, heap))
         else (None, position, heap))"

function parseExpression ::
  "builtins \<Rightarrow> Token list \<Rightarrow> nat \<Rightarrow> addr \<Rightarrow> Expression \<times> nat \<times> addr" where
  "parseExpression b tokens position heap =
     (if \<not> position < length tokens then (Text [], position, heap)
      else if token_type (tokens ! position) = NOT then
        (case parseExpression b tokens (position + 1) heap of
           (Filter f, p, h) \<Rightarrow> (Filter (f\<lparr>negate := True\<rparr>), p, h)
         | (Text t, p, h) \<Rightarrow> (Text t, p, h))
      else if token_type (tokens ! position) = FIELD then
        (case field_expression b tokens position heap of
           (Some f, p, h) \<Rightarrow> (Filter f, p, h)
         | (None, p, h) \<Rightarrow> (Text [], p + 1, h))
      else if token_type (tokens ! position) = TEXT \<or> token_type (tokens ! position) = VALUE then
        (Text (token_value (tokens ! position)), position + 1, heap)
      else if token_type (tokens ! position) = AND \<or> token_type (tokens ! position) = OR then
        parseExpression b tokens (position + 1) heap
      else (Text [], position + 1, heap))"
  by pat_completeness auto
termination
  by (relation "measure (\<lambda>(b, tokens, position, heap). length tokens - position)") auto

declare parseExpression.simps [simp del]

text \<open>The loop of \<^verbatim>\<open>parse\<close>: the filters and the text parts, in the order met.\<close>

function parse_loop ::
  "builtins \<Rightarrow> Token list \<Rightarrow> nat \<Rightarrow> addr \<Rightarrow> QueryFilter list \<Rightarrow> string list
     \<Rightarrow> QueryFilter list \<times> string list" where
  "parse_loop b tokens position heap fs textParts =
     (if position < length tokens then
        (case parseExpression b tokens position heap of
           (Filter f, p, h) \<Rightarrow> parse_loop b tokens p h (fs @ [f]) textParts
         | (Text t, p, h) \<Rightarrow> parse_loop b tokens p h fs (textParts @ [t]))
      else (fs, textParts))"
  by pat_completeness auto
termination
proof -
  have fe: "position < fst (snd (field_expression b tokens position heap))"
    for b tokens position heap
    by (simp add: field_expression_def Let_def split: prod.splits)
  have adv: "(if position < length tokens then position + 1 else position)
               \<le> fst (snd (parseExpression b tokens position heap))"
    for b tokens position heap
  proof (induction b tokens position heap rule: parseExpression.induct)
    case (1 b tokens position heap)
    show ?case
    proof (cases "position < length tokens")
      case False
      then show ?thesis by (simp add: parseExpression.simps)
    next
      case True
      note t = True
      show ?thesis
      proof (cases "token_type (tokens ! position) = NOT")
        case True
        from "1.IH"(1) t True
        have "position + 1 \<le> fst (snd (parseExpression b tokens (position + 1) heap))"
          by (simp split: if_splits)
        with t True show ?thesis
          by (subst parseExpression.simps) (auto split: prod.splits Expression.splits)
      next
        case False
        note n = False
        show ?thesis
        proof (cases "token_type (tokens ! position) = FIELD")
          case True
          with t n fe [of position b tokens heap] show ?thesis
            by (subst parseExpression.simps)
              (auto split: prod.splits option.splits)
        next
          case False
          note f = False
          show ?thesis
          proof (cases "token_type (tokens ! position) = AND \<or> token_type (tokens ! position) = OR")
            case True
            from "1.IH"(2) t n f True
            have "position + 1 \<le> fst (snd (parseExpression b tokens (position + 1) heap))"
              by (auto split: if_splits)
            with t n f True show ?thesis
              by (subst parseExpression.simps) auto
          next
            case False
            with t n f show ?thesis
              by (subst parseExpression.simps) auto
          qed
        qed
      qed
    qed
  qed
  show ?thesis
  proof (relation "measure (\<lambda>(b, tokens, position, heap, fs, ts). length tokens - position)")
    show "wf (measure (\<lambda>(b, tokens, position, heap, fs, ts). length tokens - position))"
      by simp
  next
    fix b :: builtins and tokens position heap and fs :: "QueryFilter list"
      and textParts :: "string list" and x y x1 f x2 p h
    assume "position < length tokens" and "(x, y) = parseExpression b tokens position heap"
      and "(p, h) = y"
    then show "((b, tokens, p, h, fs @ [f], textParts), b, tokens, position, heap, fs, textParts)
        \<in> measure (\<lambda>(b, tokens, position, heap, fs, ts). length tokens - position)"
      using adv [of position tokens b heap] by (auto simp: prod_eq_iff)
  next
    fix b :: builtins and tokens position heap and fs :: "QueryFilter list"
      and textParts :: "string list" and x y t p h
    assume "position < length tokens" and "(x, y) = parseExpression b tokens position heap"
      and "(p, h) = y"
    then show "((b, tokens, p, h, fs, textParts @ [t]), b, tokens, position, heap, fs, textParts)
        \<in> measure (\<lambda>(b, tokens, position, heap, fs, ts). length tokens - position)"
      using adv [of position tokens b heap] by (auto simp: prod_eq_iff)
  qed
qed

declare parse_loop.simps [simp del]

text \<open>
  \<^verbatim>\<open>parse\<close>: the filters and the text; \<open>None\<close> when the tokenizer does not return.
\<close>

definition parse :: "builtins \<Rightarrow> addr \<Rightarrow> string \<Rightarrow> (QueryFilter list \<times> string) option" where
  "parse b heap query =
     (case tokenize query of
        None \<Rightarrow> None
      | Some tokens \<Rightarrow>
          (case parse_loop b tokens 0 heap [] [] of
             (fs, textParts) \<Rightarrow> Some (fs, trim (join '' '' textParts))))"

declare tokenize_loop.simps [code]

section \<open>Example data\<close>

text \<open>
  A MiniSearch for the examples: it keeps the ids it indexed and refuses a duplicate id,
  as the library does; its text search finds nothing.
\<close>

fun add_ids :: "string list \<Rightarrow> string list \<Rightarrow> string list \<times> string option" where
  "add_ids m [] = (m, None)"
| "add_ids m (i # is) =
     (if i \<in> set m then (m, Some (''MiniSearch: duplicate ID '' @ i)) else add_ids (m @ [i]) is)"

definition ids_MiniSearch :: "string list MiniSearch" where
  "ids_MiniSearch =
     \<lparr>ms_addAll = (\<lambda>m es. add_ids m (map id' es)), ms_search = (\<lambda>m q fz. Some [])\<rparr>"

definition empty_index :: "string list LogSearchIndex" where
  "empty_index = \<lparr>miniSearch = [], index_entries = [], fieldStats = []\<rparr>"

text \<open>
  The built-in functions for the examples, given by their values at the arguments the
  examples reach: \<^verbatim>\<open>JSON.parse\<close> and \<^verbatim>\<open>JSON.stringify\<close> on five lines, with
  any other text taken for the malformed line \<^verbatim>\<open>{oops}\<close> of the examples, and no string of
  the examples is a number or a date.
\<close>

definition example_json :: "(string \<times> jsval) list" where
  "example_json =
     [(''{\"msg\":\"disk error\"}'', Obj 1 [(''msg'', Str ''disk error'')]),
      (''{\"message\":\"a\",\"msg\":\"b\"}'', Obj 1 [(''message'', Str ''a''), (''msg'', Str ''b'')]),
      (''{\"level\":\"warning\",\"user\":\"ann\"}'',
         Obj 1 [(''level'', Str ''warning''), (''user'', Str ''ann'')]),
      (''{\"ts\":1e16}'', Obj 1 [(''ts'', Num (Fin 10000000000000000))]),
      (''{\"level\":3}'', Obj 1 [(''level'', Num (Fin 3))])]"

definition example_builtins :: builtins where
  "example_builtins =
     \<lparr>JSON_parse =
        (\<lambda>s. case map_of example_json s of
               Some v \<Rightarrow> Inr v
             | None \<Rightarrow> Inl ''SyntaxError: Unexpected token o in JSON at position 1''),
      JSON_stringify =
        (\<lambda>v. case find (\<lambda>(t, w). w = v) example_json of Some (t, w) \<Rightarrow> t | None \<Rightarrow> ''{}''),
      Date_parse = (\<lambda>s. None),
      String_to_number = (\<lambda>s. NaN),
      Number_to_string = (\<lambda>n. ''NaN''),
      Date_to_string = (\<lambda>d. ''Invalid Date''),
      Function_to_string = (\<lambda>n. ''function '' @ n @ ''() { [native code] }'')\<rparr>"

definition example_entry :: "string \<Rightarrow> addr \<Rightarrow> int \<Rightarrow> string \<Rightarrow> LogEntry" where
  "example_entry i a t l =
     \<lparr>id' = i, timestamp = Date a (Some t), level = l, message = ''request served'',
      file' = ''app.log'', raw = ''request served'', fields' = None,
      source = Str ''app.log'', service = Undefined, host = Undefined, lineNumber = Some 1\<rparr>"

definition three_entry_index :: "string list LogSearchIndex" where
  "three_entry_index =
     \<lparr>miniSearch = [''c'', ''a'', ''b''],
      index_entries =
        [(''c'', example_entry ''c'' 13 3000 ''INFO''),
         (''a'', example_entry ''a'' 11 1000 ''WARN''),
         (''b'', example_entry ''b'' 12 2000 ''ERROR'')],
      fieldStats = []\<rparr>"

definition range_query :: SearchQuery where
  "range_query =
     \<lparr>text' = [], filters = [],
      timeRange = \<lparr>from' = Date 20 (Some 1000), to' = Date 21 (Some 2000)\<rparr>,
      fuzzy = False\<rparr>"

text \<open>The empty index after two calls of \<open>addEntries\<close>, with one record each.\<close>

definition two_batches_index :: "string list LogSearchIndex" where
  "two_batches_index =
     snd (addEntries ids_MiniSearch example_builtins
            (snd (addEntries ids_MiniSearch example_builtins empty_index
                    [example_entry ''a'' 11 1000 ''INFO'']))
            [example_entry ''b'' 12 2000 ''ERROR''])"

text \<open>
  The surroundings of a call, the same for every line, and a file with a line of text, a
  malformed JSON line and two empty lines.
\<close>

definition example_ambient :: ambient where
  "example_ambient = \<lparr>now = 1700000000000, fresh = 7, random36 = ''k3j2x9''\<rparr>"

definition example_file :: File where
  "example_file = \<lparr>file_name = ''app.log'', file_size = 20,
                    file_text = Inr (''hello world'' @ [CHR 0x0A] @ ''{oops}'' @ [CHR 0x0A, CHR 0x0A])\<rparr>"

section \<open>Properties of the level normalizer\<close>

lemma normalizeLogLevel_range: "normalizeLogLevel s \<in> set LogLevels"
  by (auto simp: normalizeLogLevel_def LogLevels_def Let_def)

lemma toUpperCase_LogLevels: "l \<in> set LogLevels \<Longrightarrow> toUpperCase l = l"
  by (auto simp: LogLevels_def toUpperCase_def upper_char_def latin_lower_def latin_upper_def)

lemma normalizeLogLevel_fixes_LogLevels: "l \<in> set LogLevels \<Longrightarrow> normalizeLogLevel l = l"
  by (auto simp: LogLevels_def normalizeLogLevel_def toUpperCase_def upper_char_def latin_lower_def latin_upper_def)

text \<open>
  C8. The function is total (a HOL function, with no failing branch), its result is one
  of the six canonical levels, it is idempotent, a case variant of a canonical name maps
  to that name, a case variant of WARNING maps to WARN, and every other input maps to
  INFO.
\<close>

theorem normalizeLogLevel_total_idempotent:
  "normalizeLogLevel s \<in> set LogLevels
   \<and> normalizeLogLevel (normalizeLogLevel s) = normalizeLogLevel s
   \<and> (toUpperCase s \<in> set LogLevels \<longrightarrow> normalizeLogLevel s = toUpperCase s)
   \<and> (toUpperCase s = ''WARNING'' \<longrightarrow> normalizeLogLevel s = ''WARN'')
   \<and> (toUpperCase s \<notin> set LogLevels \<and> toUpperCase s \<noteq> ''WARNING''
        \<longrightarrow> normalizeLogLevel s = ''INFO'')"
proof -
  have a: "normalizeLogLevel s \<in> set LogLevels"
    by (rule normalizeLogLevel_range)
  have b: "normalizeLogLevel (normalizeLogLevel s) = normalizeLogLevel s"
    using a by (rule normalizeLogLevel_fixes_LogLevels)
  have c: "toUpperCase s \<in> set LogLevels \<longrightarrow> normalizeLogLevel s = toUpperCase s"
    by (auto simp: LogLevels_def normalizeLogLevel_def Let_def)
  have d: "toUpperCase s = ''WARNING'' \<longrightarrow> normalizeLogLevel s = ''WARN''"
    by (simp add: normalizeLogLevel_def)
  have e: "toUpperCase s \<notin> set LogLevels \<and> toUpperCase s \<noteq> ''WARNING''
        \<longrightarrow> normalizeLogLevel s = ''INFO''"
    by (auto simp: LogLevels_def normalizeLogLevel_def Let_def)
  from a b c d e show ?thesis by blast
qed

theorem normalizeLogLevel_total_idempotent_witness:
  "normalizeLogLevel ''Warning'' = ''WARN'' \<and> normalizeLogLevel ''error'' = ''ERROR''
   \<and> normalizeLogLevel ''CRITICAL'' = ''INFO''
   \<and> normalizeLogLevel (normalizeLogLevel ''fAtAl'') = ''FATAL''"
proof -
  have u1: "toUpperCase ''Warning'' = ''WARNING''"
    by (simp add: toUpperCase_def upper_char_def latin_lower_def latin_upper_def)
  have u2: "toUpperCase ''error'' = ''ERROR''"
    by (simp add: toUpperCase_def upper_char_def latin_lower_def latin_upper_def)
  have u3: "toUpperCase ''CRITICAL'' = ''CRITICAL''"
    by (simp add: toUpperCase_def upper_char_def latin_lower_def latin_upper_def)
  have u4: "toUpperCase ''fAtAl'' = ''FATAL''"
    by (simp add: toUpperCase_def upper_char_def latin_lower_def latin_upper_def)
  have m2: "''ERROR'' \<in> set LogLevels" and m4: "''FATAL'' \<in> set LogLevels"
    and m3: "''CRITICAL'' \<notin> set LogLevels"
    by (simp_all add: LogLevels_def)
  note w = normalizeLogLevel_total_idempotent [of "''Warning''"]
  note e = normalizeLogLevel_total_idempotent [of "''error''"]
  note c = normalizeLogLevel_total_idempotent [of "''CRITICAL''"]
  note f = normalizeLogLevel_total_idempotent [of "''fAtAl''"]
  have 1: "normalizeLogLevel ''Warning'' = ''WARN''" using w u1 by blast
  have 2: "normalizeLogLevel ''error'' = ''ERROR''" using e u2 m2 by simp
  have 3: "normalizeLogLevel ''CRITICAL'' = ''INFO''" using c u3 m3 by simp
  have 4: "normalizeLogLevel ''fAtAl'' = ''FATAL''" using f u4 m4 by simp
  have 5: "normalizeLogLevel (normalizeLogLevel ''fAtAl'') = normalizeLogLevel ''fAtAl''"
    using f by blast
  show ?thesis using 1 2 3 4 5 by simp
qed

section \<open>Properties of the search index\<close>

lemma matchesFilter_absent:
  "absent (getFieldValue entry (field f)) \<Longrightarrow> matchesFilter b entry f = (operator f \<noteq> exists)"
  by (simp add: matchesFilter_def absent_def Let_def)

lemma matchesFilter_present:
  "\<not> absent (getFieldValue entry (field f)) \<Longrightarrow>
   matchesFilter b entry f =
     (if negate f then \<not> operator_matches b (operator f) (getFieldValue entry (field f)) (value' f)
      else operator_matches b (operator f) (getFieldValue entry (field f)) (value' f))"
  by (simp add: matchesFilter_def absent_def Let_def)

text \<open>
  C6, as stated, fails: the field \<open>host\<close> of the record is absent, the operator is not
  \<open>exists\<close>, so that the filter counts as matching, and with the negate flag set the
  filter still matches: the flag does not invert the outcome.
\<close>

theorem negate_ignored_on_absent_counterexample:
  "getFieldValue (example_entry ''e1'' 10 1000 ''INFO'') ''host'' = Undefined
   \<and> matchesFilter example_builtins (example_entry ''e1'' 10 1000 ''INFO'')
        \<lparr>field = ''host'', operator = equals, value' = Str ''web-1'', negate = False\<rparr>
   \<and> matchesFilter example_builtins (example_entry ''e1'' 10 1000 ''INFO'')
        \<lparr>field = ''host'', operator = equals, value' = Str ''web-1'', negate = True\<rparr>"
  by (simp add: matchesFilter_def getFieldValue_def example_entry_def)

text \<open>
  C6, amended. When the field of the filter resolves to an absent value, the filter does
  not match for the operator \<open>exists\<close> and matches for every other operator, whatever the
  negate flag; when it resolves to a present value, the negate flag inverts the outcome of
  the operator.
\<close>

theorem matchesFilter_absent_and_negate:
  "(absent (getFieldValue entry (field f))
      \<longrightarrow> matchesFilter b entry f = (operator f \<noteq> exists))
   \<and> (\<not> absent (getFieldValue entry (field f))
      \<longrightarrow> matchesFilter b entry f =
           (if negate f
            then \<not> operator_matches b (operator f) (getFieldValue entry (field f)) (value' f)
            else operator_matches b (operator f) (getFieldValue entry (field f)) (value' f)))"
  using matchesFilter_absent [of entry f b] matchesFilter_present [of entry f b] by blast

theorem matchesFilter_absent_and_negate_witness:
  "absent (getFieldValue (example_entry ''e1'' 10 1000 ''INFO'') ''service'')
   \<and> \<not> matchesFilter example_builtins (example_entry ''e1'' 10 1000 ''INFO'')
        \<lparr>field = ''service'', operator = exists, value' = Undefined, negate = False\<rparr>
   \<and> \<not> matchesFilter example_builtins (example_entry ''e1'' 10 1000 ''INFO'')
        \<lparr>field = ''service'', operator = exists, value' = Undefined, negate = True\<rparr>
   \<and> matchesFilter example_builtins (example_entry ''e1'' 10 1000 ''INFO'')
        \<lparr>field = ''service'', operator = contains, value' = Str ''api'', negate = False\<rparr>
   \<and> matchesFilter example_builtins (example_entry ''e1'' 10 1000 ''INFO'')
        \<lparr>field = ''service'', operator = contains, value' = Str ''api'', negate = True\<rparr>
   \<and> \<not> absent (getFieldValue (example_entry ''e1'' 10 1000 ''INFO'') ''level'')
   \<and> matchesFilter example_builtins (example_entry ''e1'' 10 1000 ''INFO'')
        \<lparr>field = ''level'', operator = equals, value' = Str ''DEBUG'', negate = True\<rparr>
   \<and> \<not> matchesFilter example_builtins (example_entry ''e1'' 10 1000 ''INFO'')
        \<lparr>field = ''level'', operator = equals, value' = Str ''INFO'', negate = True\<rparr>"
proof -
  let ?e = "example_entry ''e1'' 10 1000 ''INFO''"
  have a: "absent (getFieldValue ?e ''service'')"
    by (simp add: getFieldValue_def example_entry_def absent_def)
  have p: "\<not> absent (getFieldValue ?e ''level'')" and v: "getFieldValue ?e ''level'' = Str ''INFO''"
    by (simp_all add: getFieldValue_def example_entry_def absent_def)
  show ?thesis
    using a p
      matchesFilter_absent_and_negate [of ?e "\<lparr>field = ''service'', operator = exists, value' = Undefined, negate = False\<rparr>" example_builtins]
      matchesFilter_absent_and_negate [of ?e "\<lparr>field = ''service'', operator = exists, value' = Undefined, negate = True\<rparr>" example_builtins]
      matchesFilter_absent_and_negate [of ?e "\<lparr>field = ''service'', operator = contains, value' = Str ''api'', negate = False\<rparr>" example_builtins]
      matchesFilter_absent_and_negate [of ?e "\<lparr>field = ''service'', operator = contains, value' = Str ''api'', negate = True\<rparr>" example_builtins]
      matchesFilter_absent_and_negate [of ?e "\<lparr>field = ''level'', operator = equals, value' = Str ''DEBUG'', negate = True\<rparr>" example_builtins]
      matchesFilter_absent_and_negate [of ?e "\<lparr>field = ''level'', operator = equals, value' = Str ''INFO'', negate = True\<rparr>" example_builtins]
    by (simp add: v operator_matches_def strict_equals_def)
qed




lemma insert_sorted_insort:
  "getTime (timestamp x) \<noteq> None \<Longrightarrow> \<forall>y \<in> set ys. getTime (timestamp y) \<noteq> None \<Longrightarrow>
   insert_sorted by_timestamp_desc x ys = insort_key (\<lambda>e. - the (getTime (timestamp e))) x ys"
  by (induction ys) (auto simp: by_timestamp_desc_def)

lemma Array_sort_sort_key:
  "\<forall>y \<in> set xs. getTime (timestamp y) \<noteq> None \<Longrightarrow>
   Array_sort by_timestamp_desc xs = sort_key (\<lambda>e. - the (getTime (timestamp e))) xs"
proof (induction xs)
  case Nil
  then show ?case by (simp add: Array_sort_def)
next
  case (Cons x xs)
  have "Array_sort by_timestamp_desc (x # xs)
      = insert_sorted by_timestamp_desc x (Array_sort by_timestamp_desc xs)"
    by (simp add: Array_sort_def)
  also have "\<dots> = insert_sorted by_timestamp_desc x (sort_key (\<lambda>e. - the (getTime (timestamp e))) xs)"
    using Cons by simp
  also have "\<dots> = insort_key (\<lambda>e. - the (getTime (timestamp e))) x (sort_key (\<lambda>e. - the (getTime (timestamp e))) xs)"
    using Cons.prems by (intro insert_sorted_insort) auto
  finally show ?case by (simp add: sort_key_def)
qed

lemma in_time_range_defined: "in_time_range r e \<Longrightarrow> getTime (timestamp e) \<noteq> None"
  by (auto simp: in_time_range_def date_le_def split: option.splits)

lemma search_plain:
  assumes "filters query = []" and "trim (text' query) = []"
  shows "search ms b elapsed idx query =
     (let sorted = Array_sort by_timestamp_desc
                     (filter (in_time_range (timeRange query)) (map snd (index_entries idx)))
      in \<lparr>entries = sorted, total = length sorted, took = elapsed\<rparr>)"
  using assms by (simp add: search_def Let_def in_time_range_def [abs_def])

lemma search_plain_entries:
  assumes "filters query = []" and "trim (text' query) = []"
  shows "entries (search ms b elapsed idx query) =
     sort_key (\<lambda>e. - the (getTime (timestamp e)))
       (filter (in_time_range (timeRange query)) (map snd (index_entries idx)))"
proof -
  have "\<forall>y \<in> set (filter (in_time_range (timeRange query)) (map snd (index_entries idx))).
          getTime (timestamp y) \<noteq> None"
    by (auto dest: in_time_range_defined)
  then show ?thesis
    using assms by (simp add: search_plain Let_def Array_sort_sort_key)
qed

lemma sorted_desc:
  assumes "\<forall>y \<in> set xs. getTime (timestamp y) \<noteq> None"
    and "sorted (map (\<lambda>e. - the (getTime (timestamp e))) xs)"
  shows "sorted_wrt (\<lambda>a c. date_le (timestamp c) (timestamp a)) xs"
  using assms
  by (induction xs) (auto simp: date_le_def split: option.splits)

lemma two_sorted:
  assumes "mset xs = {#e1, e2#}" and "sorted_wrt R xs" and "\<not> R e1 e2"
  shows "xs = [e2, e1]"
proof -
  have "length xs = 2" using assms(1) by (metis size_mset size_add_mset size_empty numeral_2_eq_2)
  then obtain a c where xs: "xs = [a, c]"
    by (metis (no_types, opaque_lifting) One_nat_def Suc_length_conv length_0_conv numeral_2_eq_2)
  with assms(1) have "{#a, c#} = {#e1, e2#}" by simp
  then have "(a = e1 \<and> c = e2) \<or> (a = e2 \<and> c = e1)"
    by (auto simp: add_eq_conv_ex)
  with xs assms(2,3) show ?thesis by auto
qed

text \<open>
  C7. With no filters and an empty text, the result of \<open>search\<close> holds exactly the records
  of the index whose timestamp lies in the time range, ends included; it is in descending
  order of timestamp; records of equal timestamp keep the order they have in the index;
  the total is the length of the result; and for three records with timestamps
  \<open>T1 < T2 < T3\<close> and the range from \<open>T1\<close> to \<open>T2\<close> the result is the record of \<open>T2\<close>, then
  the record of \<open>T1\<close>.
\<close>

theorem search_time_range_sorted:
  assumes "filters query = []" and "trim (text' query) = []"
  shows
   "(let everything = map snd (index_entries idx);
         result = search ms b elapsed idx query
     in mset (entries result) = mset (filter (in_time_range (timeRange query)) everything)
        \<and> sorted_wrt (\<lambda>a c. date_le (timestamp c) (timestamp a)) (entries result)
        \<and> (\<forall>t. filter (\<lambda>e. getTime (timestamp e) = t) (entries result)
               = filter (\<lambda>e. getTime (timestamp e) = t)
                   (filter (in_time_range (timeRange query)) everything))
        \<and> total result = length (entries result)
        \<and> (\<forall>e1 e2 e3 T1 T2 T3.
              mset everything = {#e1, e2, e3#}
              \<and> getTime (timestamp e1) = Some T1 \<and> getTime (timestamp e2) = Some T2
              \<and> getTime (timestamp e3) = Some T3 \<and> T1 < T2 \<and> T2 < T3
              \<and> getTime (from' (timeRange query)) = Some T1
              \<and> getTime (to' (timeRange query)) = Some T2
              \<longrightarrow> entries result = [e2, e1]))"
proof -
  define everything where "everything = map snd (index_entries idx)"
  define cand where "cand = filter (in_time_range (timeRange query)) everything"
  define key :: "LogEntry \<Rightarrow> int" where "key = (\<lambda>e. - the (getTime (timestamp e)))"
  define result where "result = search ms b elapsed idx query"
  have res: "entries result = sort_key key cand"
    unfolding result_def cand_def everything_def key_def
    using assms by (rule search_plain_entries)
  have defd: "\<forall>y \<in> set cand. getTime (timestamp y) \<noteq> None"
    by (auto simp: cand_def dest: in_time_range_defined)
  have m: "mset (entries result) = mset cand"
    by (simp add: res)
  have defd': "\<forall>y \<in> set (entries result). getTime (timestamp y) \<noteq> None"
    using defd by (simp add: res)
  have s: "sorted_wrt (\<lambda>a c. date_le (timestamp c) (timestamp a)) (entries result)"
    using defd' by (rule sorted_desc) (simp add: res key_def)
  have st: "filter (\<lambda>e. getTime (timestamp e) = t) (entries result)
               = filter (\<lambda>e. getTime (timestamp e) = t) cand" for t
  proof -
    have "filter (\<lambda>e. getTime (timestamp e) = t) (sort_key key cand)
        = sort_key key (filter (\<lambda>e. getTime (timestamp e) = t) cand)"
      by (rule filter_sort)
    also have "\<dots> = filter (\<lambda>e. getTime (timestamp e) = t) cand"
    proof (cases t)
      case None
      then have "filter (\<lambda>e. getTime (timestamp e) = t) cand = []"
        using defd by (auto simp: filter_empty_conv)
      then show ?thesis by simp
    next
      case (Some u)
      have "filter (\<lambda>e. getTime (timestamp e) = t) cand = filter (\<lambda>e. key e = - u) cand"
        using defd Some by (intro filter_cong) (auto simp: key_def)
      moreover have "sort_key key (filter (\<lambda>e. key e = - u) cand) = filter (\<lambda>e. key e = - u) cand"
        by (metis filter_sort sort_key_stable)
      ultimately show ?thesis by simp
    qed
    finally show ?thesis by (simp add: res)
  qed
  have tot: "total result = length (entries result)"
    unfolding result_def using assms by (simp add: search_plain Let_def)
  have three: "entries result = [e2, e1]"
    if h: "mset everything = {#e1, e2, e3#}"
      "getTime (timestamp e1) = Some T1" "getTime (timestamp e2) = Some T2"
      "getTime (timestamp e3) = Some T3" "T1 < T2" "T2 < T3"
      "getTime (from' (timeRange query)) = Some T1" "getTime (to' (timeRange query)) = Some T2"
    for e1 e2 e3 T1 T2 T3
  proof -
    have "mset cand = filter_mset (in_time_range (timeRange query)) (mset everything)"
      by (simp add: cand_def)
    also have "\<dots> = {#e1, e2#}"
      using h by (simp add: in_time_range_def date_le_def)
    finally have a: "mset (entries result) = {#e1, e2#}" using m by simp
    have c: "\<not> date_le (timestamp e2) (timestamp e1)"
      using h by (simp add: date_le_def)
    show ?thesis by (rule two_sorted [OF a s c])
  qed
  show ?thesis
    unfolding Let_def everything_def [symmetric] result_def [symmetric] cand_def [symmetric]
    using m s st tot three by blast
qed

theorem search_time_range_sorted_witness:
  "filters range_query = [] \<and> trim (text' range_query) = []
   \<and> entries (search ids_MiniSearch example_builtins 0 three_entry_index range_query)
       = [example_entry ''b'' 12 2000 ''ERROR'', example_entry ''a'' 11 1000 ''WARN'']"
proof -
  have f: "filters range_query = []" and t: "trim (text' range_query) = []"
    by (simp_all add: range_query_def trim_def)
  note th = search_time_range_sorted [OF f t, of three_entry_index ids_MiniSearch
      example_builtins 0, unfolded Let_def]
  from th have "\<forall>e1 e2 e3 T1 T2 T3.
              mset (map snd (index_entries three_entry_index)) = {#e1, e2, e3#}
              \<and> getTime (timestamp e1) = Some T1 \<and> getTime (timestamp e2) = Some T2
              \<and> getTime (timestamp e3) = Some T3 \<and> T1 < T2 \<and> T2 < T3
              \<and> getTime (from' (timeRange range_query)) = Some T1
              \<and> getTime (to' (timeRange range_query)) = Some T2
              \<longrightarrow> entries (search ids_MiniSearch example_builtins 0 three_entry_index range_query)
                    = [e2, e1]"
    by blast
  from this [rule_format, of "example_entry ''a'' 11 1000 ''WARN''"
      "example_entry ''b'' 12 2000 ''ERROR''" "example_entry ''c'' 13 3000 ''INFO''" 1000 2000 3000]
  have "entries (search ids_MiniSearch example_builtins 0 three_entry_index range_query)
       = [example_entry ''b'' 12 2000 ''ERROR'', example_entry ''a'' 11 1000 ''WARN'']"
    by (simp add: three_entry_index_def range_query_def example_entry_def)
  with f t show ?thesis by simp
qed

lemma Map_get_set_eq:
  "Map_get (=) (Map_set (=) m k v) k' = (if k' = k then Some v else Map_get (=) m k')"
  by (induction m) auto

lemma Map_set_keys_eq:
  "map fst (Map_set (=) m k v) = (if k \<in> set (map fst m) then map fst m else map fst m @ [k])"
  by (induction m) (force split: if_splits)+

lemma Map_get_None_iff: "Map_get (=) m k = None \<longleftrightarrow> k \<notin> set (map fst m)"
  by (induction m) (force split: if_splits)+

lemma Map_set_svz_keys:
  "map (ident \<circ> fst) (Map_set same_value_zero vc v n) =
     (if ident v \<in> set (map (ident \<circ> fst) vc) then map (ident \<circ> fst) vc
      else map (ident \<circ> fst) vc @ [ident v])"
  by (induction vc) (force simp: same_value_zero_def split: if_splits)+

lemma Map_set_svz_length:
  "length (Map_set same_value_zero vc v n) =
     (if ident v \<in> set (map (ident \<circ> fst) vc) then length vc else Suc (length vc))"
  using arg_cong [OF Map_set_svz_keys, of length vc v n] by (simp split: if_splits)

lemma counts_of_step:
  assumes "counts_of fc vals"
  shows "counts_of (updateFieldStat fc k v)
           (\<lambda>f. vals f @ (if f = k \<and> \<not> absent v then [v] else []))"
proof (cases "absent v")
  case True
  then show ?thesis using assms by (simp add: updateFieldStat_def absent_def)
next
  case False
  define fc1 where "fc1 = (if Map_get (=) fc k = None then Map_set (=) fc k [] else fc)"
  define vc where "vc = (case Map_get (=) fc1 k of Some m \<Rightarrow> m | None \<Rightarrow> [])"
  define n where "n = (case Map_get same_value_zero vc v of Some c \<Rightarrow> c | None \<Rightarrow> 0)"
  have upd: "updateFieldStat fc k v = Map_set (=) fc1 k (Map_set same_value_zero vc v (n + 1))"
    using False by (simp add: updateFieldStat_def absent_def Let_def fc1_def vc_def n_def)
  have d: "distinct (map fst fc)" using assms by (simp add: counts_of_def)
  have d1: "distinct (map fst fc1)"
    using d by (auto simp: fc1_def Map_set_keys_eq Map_get_None_iff)
  have d2: "distinct (map fst (updateFieldStat fc k v))"
    using d1 by (auto simp: upd Map_set_keys_eq)
  have get: "Map_get (=) (updateFieldStat fc k v) f =
      (if f = k then Some (Map_set same_value_zero vc v (n + 1)) else Map_get (=) fc f)" for f
    by (simp add: upd Map_get_set_eq fc1_def)
  have old: "case Map_get (=) fc f of
             None \<Rightarrow> vals f = []
           | Some vc \<Rightarrow> vals f \<noteq> [] \<and> distinct (map (ident \<circ> fst) vc)
                        \<and> set (map (ident \<circ> fst) vc) = ident ` set (vals f)" for f
    using assms by (simp add: counts_of_def)
  have vck: "distinct (map (ident \<circ> fst) vc) \<and> set (map (ident \<circ> fst) vc) = ident ` set (vals k)"
    using old [of k] by (auto simp: vc_def fc1_def Map_get_set_eq split: option.splits)
  have new: "distinct (map (ident \<circ> fst) (Map_set same_value_zero vc v (n + 1)))
      \<and> set (map (ident \<circ> fst) (Map_set same_value_zero vc v (n + 1))) = ident ` set (vals k @ [v])"
    using vck by (auto simp: Map_set_svz_keys)
  show ?thesis
    unfolding counts_of_def
  proof (intro conjI allI)
    show "distinct (map fst (updateFieldStat fc k v))" by (rule d2)
  next
    fix f
    show "case Map_get (=) (updateFieldStat fc k v) f of
             None \<Rightarrow> vals f @ (if f = k \<and> \<not> absent v then [v] else []) = []
           | Some vc \<Rightarrow> vals f @ (if f = k \<and> \<not> absent v then [v] else []) \<noteq> []
                \<and> distinct (map (ident \<circ> fst) vc)
                \<and> set (map (ident \<circ> fst) vc)
                   = ident ` set (vals f @ (if f = k \<and> \<not> absent v then [v] else []))"
    proof (cases "f = k")
      case True
      then show ?thesis using new False by (simp add: get)
    next
      case False
      then show ?thesis using old [of f] by (simp add: get split: option.splits)
    qed
  qed
qed

lemma counts_of_fold:
  assumes "counts_of fc vals"
  shows "counts_of (fold (\<lambda>(key, v) fc. updateFieldStat fc key v) ps fc)
           (\<lambda>f. vals f @ map snd (filter (\<lambda>kv. fst kv = f \<and> \<not> absent (snd kv)) ps))"
  using assms
proof (induction ps arbitrary: fc vals)
  case Nil
  then show ?case by simp
next
  case (Cons p ps)
  obtain k v where p: "p = (k, v)" by (cases p)
  have "counts_of (updateFieldStat fc k v)
           (\<lambda>f. vals f @ (if f = k \<and> \<not> absent v then [v] else []))"
    using Cons.prems by (rule counts_of_step)
  from Cons.IH [OF this] show ?case
    by (simp add: p) (erule back_subst [of "counts_of _"], auto)
qed

lemma count_entry_fold:
  "count_entry fc entry = fold (\<lambda>(key, v) fc. updateFieldStat fc key v) (entry_pairs entry) fc"
  by (simp add: count_entry_def entry_pairs_def Let_def split: option.splits)

lemma fold_count_entry:
  "fold (\<lambda>entry fc. count_entry fc entry) es fc =
   fold (\<lambda>(key, v) fc. updateFieldStat fc key v) (concat (map entry_pairs es)) fc"
  by (induction es arbitrary: fc) (simp_all add: count_entry_fold)

lemma counts_of_batch:
  "counts_of (fold (\<lambda>entry fc. count_entry fc entry) es []) (\<lambda>f. observed f es)"
proof -
  have "counts_of [] (\<lambda>f. [])" by (simp add: counts_of_def)
  from counts_of_fold [OF this, of "concat (map entry_pairs es)"]
  show ?thesis by (simp add: fold_count_entry observed_def)
qed

lemma set_suggestion_eq:
  "set_suggestion b (f, vc) stats = Map_set (=) stats f (suggestion_of b f vc)"
  by (simp add: set_suggestion_def suggestion_of_def Let_def)

lemma fold_set_suggestion_get:
  "distinct (map fst fc) \<Longrightarrow>
   Map_get (=) (fold (set_suggestion b) fc stats) f =
     (case Map_get (=) fc f of
        Some vc \<Rightarrow> Some (suggestion_of b f vc)
      | None \<Rightarrow> Map_get (=) stats f)"
proof (induction fc arbitrary: stats)
  case Nil
  then show ?case by simp
next
  case (Cons p fc)
  obtain k vc where p: "p = (k, vc)" by (cases p)
  have nk: "Map_get (=) fc k = None"
    using Cons.prems by (simp add: p Map_get_None_iff)
  show ?case
    using Cons.prems nk
    by (auto simp: p Cons.IH set_suggestion_eq Map_get_set_eq split: option.splits)
qed

lemma wf_stats_Map_set:
  "wf_stats stats \<Longrightarrow> sfield s = k \<Longrightarrow> wf_stats (Map_set (=) stats k s)"
  by (induction stats) (auto simp: wf_stats_def Map_set_keys_eq split: if_splits)

lemma wf_stats_fold:
  "wf_stats stats \<Longrightarrow> wf_stats (fold (set_suggestion b) fc stats)"
proof (induction fc arbitrary: stats)
  case Nil
  then show ?case by simp
next
  case (Cons p fc)
  obtain k vc where p: "p = (k, vc)" by (cases p)
  have "wf_stats (set_suggestion b p stats)"
    using Cons.prems by (simp add: p set_suggestion_eq wf_stats_Map_set suggestion_of_def)
  then show ?case by (simp add: Cons.IH)
qed

lemma wf_stats_filter:
  "wf_stats stats \<Longrightarrow>
   filter (\<lambda>s. sfield s = f) (map snd stats) =
     (case Map_get (=) stats f of None \<Rightarrow> [] | Some s \<Rightarrow> [s])"
proof (induction stats)
  case Nil
  then show ?case by simp
next
  case (Cons p stats)
  have wf: "wf_stats stats" using Cons.prems by (simp add: wf_stats_def)
  have tl: "filter (\<lambda>s. sfield s = f) (map snd stats) = []" if "fst p = f"
  proof -
    have "sfield (snd ks) \<noteq> f" if "ks \<in> set stats" for ks
    proof -
      from that have "fst ks \<in> set (map fst stats)" by simp
      moreover have "fst p \<notin> set (map fst stats)"
        using Cons.prems by (simp add: wf_stats_def)
      moreover have "sfield (snd ks) = fst ks"
        using Cons.prems that by (simp add: wf_stats_def list_all_iff)
      ultimately show ?thesis using \<open>fst p = f\<close> by metis
    qed
    then show ?thesis by (auto simp: filter_empty_conv)
  qed
  show ?case
    using Cons.prems Cons.IH [OF wf] tl
    by (cases p) (auto simp: wf_stats_def)
qed

lemma addEntries_Return:
  assumes "addEntries ms b idx es = (Return (), idx')"
  shows "fieldStats idx' =
     fold (set_suggestion b) (fold (\<lambda>entry fc. count_entry fc entry) es []) (fieldStats idx)"
  using assms
  by (auto simp: addEntries_def updateFieldStats_def Let_def split: prod.splits option.splits)

text \<open>
  C2, as stated, fails: two calls of \<open>addEntries\<close> on an empty index, the first with a
  record of level INFO, the second with a record of level ERROR; the two levels that were
  added are distinct, and the cardinality reported for \<open>level\<close> is 1.
\<close>

theorem cardinality_across_batches_counterexample:
  "fst (addEntries ids_MiniSearch example_builtins empty_index
          [example_entry ''a'' 11 1000 ''INFO'']) = Return ()
   \<and> fst (addEntries ids_MiniSearch example_builtins
            (snd (addEntries ids_MiniSearch example_builtins empty_index
                    [example_entry ''a'' 11 1000 ''INFO'']))
            [example_entry ''b'' 12 2000 ''ERROR'']) = Return ()
   \<and> map sfield (getFieldSuggestions two_batches_index) = [''level'', ''file'', ''source'']
   \<and> map cardinality (getFieldSuggestions two_batches_index) = [1, 1, 1]
   \<and> observed ''level'' [example_entry ''a'' 11 1000 ''INFO'', example_entry ''b'' 12 2000 ''ERROR'']
       = [Str ''INFO'', Str ''ERROR'']"
  by (simp add: two_batches_index_def addEntries_def ids_MiniSearch_def empty_index_def
      example_entry_def updateFieldStats_def count_entry_def updateFieldStat_def
      set_suggestion_def getFieldSuggestions_def same_value_zero_def Let_def
      observed_def entry_pairs_def absent_def)

text \<open>
  C2, amended. After a call of \<open>addEntries\<close> that returns, on an index with well-formed
  statistics: the statistics are well formed again; for a field with a value that is
  neither undefined nor null among the records of the call, \<open>getFieldSuggestions\<close> has
  exactly one suggestion, and its cardinality is the number of distinct such values of
  the field among the records of this call alone; for any other field, the suggestions are
  those of before the call.
\<close>

theorem addEntries_cardinality_of_batch:
  assumes "addEntries ms b idx es = (Return (), idx')" and "wf_stats (fieldStats idx)"
  shows "wf_stats (fieldStats idx')
     \<and> (observed f es \<noteq> [] \<longrightarrow>
          (\<exists>s. filter (\<lambda>s. sfield s = f) (getFieldSuggestions idx') = [s]
               \<and> cardinality s = card (ident ` set (observed f es))))
     \<and> (observed f es = [] \<longrightarrow>
          filter (\<lambda>s. sfield s = f) (getFieldSuggestions idx')
            = filter (\<lambda>s. sfield s = f) (getFieldSuggestions idx))"
proof -
  define fc where "fc = fold (\<lambda>entry fc. count_entry fc entry) es []"
  have st: "fieldStats idx' = fold (set_suggestion b) fc (fieldStats idx)"
    unfolding fc_def using assms(1) by (rule addEntries_Return)
  have c: "counts_of fc (\<lambda>f. observed f es)"
    unfolding fc_def by (rule counts_of_batch)
  then have d: "distinct (map fst fc)" by (simp add: counts_of_def)
  have wf': "wf_stats (fieldStats idx')"
    using assms(2) by (simp add: st wf_stats_fold)
  have get: "Map_get (=) (fieldStats idx') f =
     (case Map_get (=) fc f of
        Some vc \<Rightarrow> Some (suggestion_of b f vc)
      | None \<Rightarrow> Map_get (=) (fieldStats idx) f)"
    using d by (simp add: st fold_set_suggestion_get)
  have cf: "case Map_get (=) fc f of
             None \<Rightarrow> observed f es = []
           | Some vc \<Rightarrow> observed f es \<noteq> [] \<and> distinct (map (ident \<circ> fst) vc)
                        \<and> set (map (ident \<circ> fst) vc) = ident ` set (observed f es)"
    using c by (simp add: counts_of_def)
  have some: "\<exists>s. filter (\<lambda>s. sfield s = f) (getFieldSuggestions idx') = [s]
               \<and> cardinality s = card (ident ` set (observed f es))"
    if ne: "observed f es \<noteq> []"
  proof -
    from cf ne obtain vc where vc: "Map_get (=) fc f = Some vc"
      "distinct (map (ident \<circ> fst) vc)" "set (map (ident \<circ> fst) vc) = ident ` set (observed f es)"
      by (auto split: option.splits)
    have "card (ident ` set (observed f es)) = length (map (ident \<circ> fst) vc)"
      using vc(2,3) by (metis distinct_card)
    then have "cardinality (suggestion_of b f vc) = card (ident ` set (observed f es))"
      by (simp add: suggestion_of_def)
    moreover have "filter (\<lambda>s. sfield s = f) (getFieldSuggestions idx') = [suggestion_of b f vc]"
      using wf' by (simp add: getFieldSuggestions_def wf_stats_filter get vc(1))
    ultimately show ?thesis by blast
  qed
  have none: "filter (\<lambda>s. sfield s = f) (getFieldSuggestions idx')
            = filter (\<lambda>s. sfield s = f) (getFieldSuggestions idx)"
    if e: "observed f es = []"
  proof -
    from cf e have "Map_get (=) fc f = None" by (auto split: option.splits)
    then show ?thesis
      using wf' assms(2) by (simp add: getFieldSuggestions_def wf_stats_filter get)
  qed
  from wf' some none show ?thesis by blast
qed

theorem addEntries_cardinality_of_batch_witness:
  "addEntries ids_MiniSearch example_builtins empty_index
      [example_entry ''a'' 11 1000 ''INFO'', example_entry ''b'' 12 2000 ''ERROR'']
     = (Return (), snd (addEntries ids_MiniSearch example_builtins empty_index
          [example_entry ''a'' 11 1000 ''INFO'', example_entry ''b'' 12 2000 ''ERROR'']))
   \<and> wf_stats (fieldStats empty_index)
   \<and> observed ''level'' [example_entry ''a'' 11 1000 ''INFO'', example_entry ''b'' 12 2000 ''ERROR'']
       = [Str ''INFO'', Str ''ERROR'']
   \<and> observed ''host'' [example_entry ''a'' 11 1000 ''INFO'', example_entry ''b'' 12 2000 ''ERROR'']
       = []
   \<and> map cardinality (filter (\<lambda>s. sfield s = ''level'')
        (getFieldSuggestions (snd (addEntries ids_MiniSearch example_builtins empty_index
          [example_entry ''a'' 11 1000 ''INFO'', example_entry ''b'' 12 2000 ''ERROR''])))) = [2]
   \<and> filter (\<lambda>s. sfield s = ''host'')
        (getFieldSuggestions (snd (addEntries ids_MiniSearch example_builtins empty_index
          [example_entry ''a'' 11 1000 ''INFO'', example_entry ''b'' 12 2000 ''ERROR'']))) = []"
proof -
  let ?es = "[example_entry ''a'' 11 1000 ''INFO'', example_entry ''b'' 12 2000 ''ERROR'']"
  let ?r = "addEntries ids_MiniSearch example_builtins empty_index ?es"
  have "fst ?r = Return ()"
    by (simp add: addEntries_def ids_MiniSearch_def empty_index_def example_entry_def)
  then have r: "?r = (Return (), snd ?r)"
    by (metis prod.collapse)
  have w: "wf_stats (fieldStats empty_index)"
    by (simp add: wf_stats_def empty_index_def)
  have l: "observed ''level'' ?es = [Str ''INFO'', Str ''ERROR'']"
    and h: "observed ''host'' ?es = []"
    by (simp_all add: observed_def entry_pairs_def example_entry_def absent_def)
  have c: "card (ident ` set (observed ''level'' ?es)) = 2"
    by (simp add: l)
  have e: "getFieldSuggestions empty_index = []"
    by (simp add: getFieldSuggestions_def empty_index_def)
  from addEntries_cardinality_of_batch [OF r w, of "''level''"] l c
  have 1: "map cardinality (filter (\<lambda>s. sfield s = ''level'') (getFieldSuggestions (snd ?r))) = [2]"
    by auto
  from addEntries_cardinality_of_batch [OF r w, of "''host''"] h e
  have 2: "filter (\<lambda>s. sfield s = ''host'') (getFieldSuggestions (snd ?r)) = []"
    by simp
  from r w l h 1 2 show ?thesis by blast
qed

section \<open>Properties of the regular expression matcher\<close>

lemma step_refl: "step {} s s"
  by (simp add: step_def)

lemma subset_chain: "A \<union> D1 \<subseteq> B \<Longrightarrow> B \<union> D2 \<subseteq> C \<Longrightarrow> A \<union> (D1 \<union> D2) \<subseteq> C"
  by blast

lemma subset_less: "A \<union> D \<subseteq> B \<Longrightarrow> D' \<subseteq> D \<Longrightarrow> A \<union> D' \<subseteq> B"
  by blast

lemma step_trans:
  assumes "step D1 s s1" and "step D2 s1 s2"
  shows "step (D1 \<union> D2) s s2"
proof -
  have i: "input_of s2 = input_of s"
    using assms unfolding step_def by (elim conjE) (rule trans)
  have g: "good s \<longrightarrow> good s2"
    using assms unfolding step_def by (elim conjE) (rule impI, erule (1) impE, erule (1) impE)
  have k: "fst ` set (groups s) \<union> (D1 \<union> D2) \<subseteq> fst ` set (groups s2)"
    using assms unfolding step_def by (elim conjE) (rule subset_chain)
  from i g k show ?thesis unfolding step_def by (intro conjI)
qed

lemma step_mono:
  assumes "step D s s'" and "D' \<subseteq> D"
  shows "step D' s s'"
proof -
  have k: "fst ` set (groups s) \<union> D' \<subseteq> fst ` set (groups s')"
    using assms unfolding step_def by (elim conjE) (rule subset_less)
  from assms(1) k show ?thesis unfolding step_def by (elim conjE) (intro conjI)
qed

lemma step_advance: "rest s = x # xs \<Longrightarrow> step {} s (advance s)"
  by (auto simp: step_def advance_def input_of_def good_def)

lemma one_char_step:
  "one_char p k s = Some f \<Longrightarrow> \<exists>s'. k s' = Some f \<and> step {} s s'"
  by (auto simp: one_char_def split: list.splits if_splits intro: step_advance)

lemma sublist_rev_take: "sublist (rev (take n xs)) (rev xs @ ys)"
proof -
  have "rev xs @ ys = rev (drop n xs) @ rev (take n xs) @ ys"
    by (metis append_assoc append_take_drop_id rev_append)
  then show ?thesis unfolding sublist_def by blast
qed

lemma step_group:
  assumes "step D s s1"
  shows "step (insert n D) s
     (s1\<lparr>groups := (n, rev (take (length (seen s1) - length (seen s)) (seen s1))) # groups s1\<rparr>)"
proof -
  let ?c = "rev (take (length (seen s1) - length (seen s)) (seen s1))"
  let ?s = "s1\<lparr>groups := (n, ?c) # groups s1\<rparr>"
  have i: "input_of ?s = input_of s1" by (simp add: input_of_def)
  have c: "sublist ?c (input_of s1)" unfolding input_of_def by (rule sublist_rev_take)
  have g: "good s1 \<Longrightarrow> good ?s" using c by (simp add: good_def i)
  have k: "fst ` set (groups ?s) = insert n (fst ` set (groups s1))" by simp
  have k': "fst ` set (groups s) \<union> insert n D \<subseteq> fst ` set (groups ?s)"
    using assms unfolding step_def k by (elim conjE) blast
  have i': "input_of ?s = input_of s"
    using assms i unfolding step_def by (elim conjE) (rule trans)
  have g': "good s \<longrightarrow> good ?s"
    using assms g unfolding step_def by (elim conjE) blast
  from i' g' k' show ?thesis unfolding step_def by (intro conjI)
qed

lemma repeat_step:
  "\<forall>k s f. m k s = Some f \<longrightarrow> (\<exists>s'. k s' = Some f \<and> step D s s') \<Longrightarrow>
   repeat m mn mx fuel k s = Some f \<Longrightarrow>
   \<exists>s'. k s' = Some f \<and> step (if mn > 0 then D else {}) s s'"
proof (induction m mn mx fuel k s arbitrary: f rule: repeat.induct)
  case (1 m mn mx fuel k s)
  note m = "1.prems"(1) [rule_format]
  from "1.prems" have "m (\<lambda>s'. repeat m mn (map_option (\<lambda>n. n - 1) mx) fuel k s') s = Some f"
    by simp
  from m [OF this] obtain s1 where
    s1: "repeat m mn (map_option (\<lambda>n. n - 1) mx) fuel k s1 = Some f" "step D s s1"
    by blast
  from "1.IH" [OF "1.prems"(1) s1(1)] obtain s2 where
    s2: "k s2 = Some f" "step (if mn > 0 then D else {}) s1 s2"
    by blast
  have "step (D \<union> (if mn > 0 then D else {})) s s2"
    using s1(2) s2(2) by (rule step_trans)
  then have "step D s s2" by (rule step_mono) auto
  with s2(1) show ?case by auto
next
  case (2 m mx k s)
  then show ?case by (auto intro: step_refl)
next
  case (3 m mx fuel k s)
  note m = "3.prems"(1) [rule_format]
  show ?case
  proof (cases "mx = Some 0")
    case True
    with "3.prems" show ?thesis by (auto intro: step_refl)
  next
    case False
    let ?k = "\<lambda>s'. if length (rest s') < length (rest s)
                   then repeat m 0 (map_option (\<lambda>n. n - 1) mx) fuel k s' else None"
    show ?thesis
    proof (cases "m ?k s")
      case None
      with "3.prems" False show ?thesis by (auto intro: step_refl)
    next
      case (Some r)
      with "3.prems" False have r: "r = f" by simp
      from m [OF Some] obtain s1 where s1: "?k s1 = Some r" "step D s s1" by blast
      then have lt: "length (rest s1) < length (rest s)"
        and rec: "repeat m 0 (map_option (\<lambda>n. n - 1) mx) fuel k s1 = Some f"
        using r by (auto split: if_splits)
      from "3.IH" [OF False lt "3.prems"(1) rec] obtain s2 where
        s2: "k s2 = Some f" "step {} s1 s2" by auto
      have "step (D \<union> {}) s s2" using s1(2) s2(2) by (rule step_trans)
      then have "step {} s s2" by (rule step_mono) simp
      with s2(1) show ?thesis by auto
    qed
  qed
qed

lemma rmatch_step:
  "rmatch ic r k s = Some f \<Longrightarrow> \<exists>s'. k s' = Some f \<and> step (definite r) s s'"
proof (induction r arbitrary: k s f)
  case Empty
  then show ?case by (auto intro: step_refl)
next
  case (Lit c)
  then show ?case by (auto dest: one_char_step)
next
  case Dot
  then show ?case by (auto dest: one_char_step)
next
  case (Class neg items)
  then show ?case by (auto dest: one_char_step)
next
  case (Seq r1 r2)
  from Seq.prems have "rmatch ic r1 (rmatch ic r2 k) s = Some f" by simp
  from Seq.IH(1) [OF this] obtain s1 where
    s1: "rmatch ic r2 k s1 = Some f" "step (definite r1) s s1" by blast
  from Seq.IH(2) [OF s1(1)] obtain s2 where
    s2: "k s2 = Some f" "step (definite r2) s1 s2" by blast
  have "step (definite r1 \<union> definite r2) s s2" using s1(2) s2(2) by (rule step_trans)
  with s2(1) show ?case by auto
next
  case (Alt r1 r2)
  show ?case
  proof (cases "rmatch ic r1 k s")
    case None
    with Alt.prems have "rmatch ic r2 k s = Some f" by simp
    from Alt.IH(2) [OF this] obtain s' where "k s' = Some f" "step (definite r2) s s'" by blast
    then show ?thesis by (auto intro: step_mono)
  next
    case (Some a)
    with Alt.prems have "rmatch ic r1 k s = Some f" by simp
    from Alt.IH(1) [OF this] obtain s' where "k s' = Some f" "step (definite r1) s s'" by blast
    then show ?thesis by (auto intro: step_mono)
  qed
next
  case (Rep mn mx r)
  from Rep.prems have "repeat (rmatch ic r) mn mx (length (rest s)) k s = Some f" by simp
  moreover have "\<forall>k s f. rmatch ic r k s = Some f
      \<longrightarrow> (\<exists>s'. k s' = Some f \<and> step (definite r) s s')"
    using Rep.IH by blast
  ultimately show ?case using repeat_step [of "rmatch ic r" "definite r"] by simp
next
  case (Group n r)
  let ?k = "\<lambda>s'. k (s'\<lparr>groups :=
                   (n, rev (take (length (seen s') - length (seen s)) (seen s'))) # groups s'\<rparr>)"
  from Group.prems have "rmatch ic r ?k s = Some f" by simp
  from Group.IH [OF this] obtain s1 where s1: "?k s1 = Some f" "step (definite r) s s1" by blast
  from s1(2) have "step (insert n (definite r)) s
     (s1\<lparr>groups := (n, rev (take (length (seen s1) - length (seen s)) (seen s1))) # groups s1\<rparr>)"
    by (rule step_group)
  with s1(1) show ?case by auto
next
  case Bol
  then show ?case by (auto split: if_splits intro: step_refl)
next
  case Eol
  then show ?case by (auto split: if_splits intro: step_refl)
next
  case WordBoundary
  then show ?case by (auto split: if_splits intro: step_refl)
qed

lemma exec_from_groups:
  "exec_from ic r pre xs = Some (s0, f) \<Longrightarrow>
   definite r \<subseteq> fst ` set (groups f) \<and> (\<forall>nc \<in> set (groups f). sublist (snd nc) (rev pre @ xs))"
proof (induction xs arbitrary: pre)
  case Nil
  then have "rmatch ic r Some \<lparr>seen = pre, rest = [], groups = []\<rparr> = Some f"
    by (auto split: option.splits)
  from rmatch_step [OF this] have "step (definite r) \<lparr>seen = pre, rest = [], groups = []\<rparr> f" by simp
  then show ?case by (auto simp: step_def good_def input_of_def)
next
  case (Cons x xs)
  show ?case
  proof (cases "rmatch ic r Some \<lparr>seen = pre, rest = x # xs, groups = []\<rparr>")
    case None
    with Cons.prems have "exec_from ic r (x # pre) xs = Some (s0, f)" by simp
    from Cons.IH [OF this] show ?thesis by simp
  next
    case (Some a)
    with Cons.prems have "rmatch ic r Some \<lparr>seen = pre, rest = x # xs, groups = []\<rparr> = Some f"
      by simp
    from rmatch_step [OF this]
    have "step (definite r) \<lparr>seen = pre, rest = x # xs, groups = []\<rparr> f" by simp
    then show ?thesis by (auto simp: step_def good_def input_of_def)
  qed
qed

lemma regex_match_groups:
  assumes "regex_match ic r s = Some m"
  shows "n \<in> definite r \<Longrightarrow> \<exists>c. group m n = Some c"
    and "group m n = Some c \<Longrightarrow> sublist c s"
proof -
  from assms obtain s0 f where e: "exec_from ic r [] s = Some (s0, f)" and m: "m = groups f"
    by (auto simp: regex_match_def)
  from exec_from_groups [OF e]
  have d: "definite r \<subseteq> fst ` set m" and g: "\<forall>nc \<in> set m. sublist (snd nc) s"
    by (simp_all add: m)
  show "n \<in> definite r \<Longrightarrow> \<exists>c. group m n = Some c"
  proof -
    assume "n \<in> definite r"
    with d have "n \<in> fst ` set m" by (rule subsetD)
    then have "map_of m n \<noteq> None" by (simp add: map_of_eq_None_iff)
    then show ?thesis by (simp add: group_def)
  qed
  show "group m n = Some c \<Longrightarrow> sublist c s"
  proof -
    assume "group m n = Some c"
    then have "(n, c) \<in> set m" by (auto simp: group_def dest: map_of_SomeD)
    with g have "sublist (snd (n, c)) s" by (rule bspec)
    then show ?thesis by simp
  qed
qed

section \<open>Properties of the log parser\<close>




text \<open>
  Each of the level patterns sets its group 1 whenever it matches, so that
  \<open>detectLevelInText\<close> never reads an undefined group.
\<close>

lemma LEVEL_PATTERNS_definite: "p \<in> set LEVEL_PATTERNS \<Longrightarrow> 1 \<in> definite p"
  by (auto simp: LEVEL_PATTERNS_def seqs_def alts_def word_def star_def spaces_def
      level_names_critical_def)

lemma LEVEL_PATTERNS_group:
  "p \<in> set LEVEL_PATTERNS \<Longrightarrow> regex_match True p s = Some m \<Longrightarrow> group m 1 \<noteq> None"
  using regex_match_groups(1) [of True p s m 1] LEVEL_PATTERNS_definite [of p] by auto


lemma text_entry_fields [simp]:
  "raw (text_entry amb line f n ts lvl msg) = line"
  "level (text_entry amb line f n ts lvl msg) = lvl"
  "file' (text_entry amb line f n ts lvl msg) = f"
  by (simp_all add: text_entry_def)

















lemma parseLine_json:
  "trim line \<noteq> [] \<Longrightarrow> looksLikeJson line \<Longrightarrow>
   parseLine b amb True line f n = parseJsonLine b amb line f n"
  by (simp add: parseLine_def)




lemma parse_lines_length:
  "parse_lines b amb opts fname i ls es errs = (es', errs') \<Longrightarrow>
   length es' + length errs' \<le> length es + length errs + length (filter (\<lambda>l. trim l \<noteq> []) ls)"
proof (induction ls arbitrary: i es errs)
  case Nil
  then show ?case by simp
next
  case (Cons l ls)
  have a: "length (addError opts errs n c e) \<le> Suc (length errs)" for n c e
    by (simp add: addError_def Let_def)
  show ?case
  proof (cases "trim l = []")
    case True
    with Cons.prems Cons.IH [of "i + 1" es errs] show ?thesis by (simp add: Let_def)
  next
    case False
    show ?thesis
    proof (cases "parseLine b (amb i) (enableJsonDetection opts) (trim l) fname (int i + 1)")
      case (Return r)
      show ?thesis
      proof (cases r)
        case None
        with Return False Cons.prems Cons.IH [of "i + 1" es errs] show ?thesis
          by (simp add: Let_def)
      next
        case (Some entry)
        with Return False Cons.prems Cons.IH [of "i + 1" "es @ [entry]" errs] show ?thesis
          by (simp add: Let_def)
      qed
    next
      case (Throw e)
      with False Cons.prems
        Cons.IH [of "i + 1" es "addError opts errs (int i + 1) (trim l) e"]
        a [of "int i + 1" "trim l" e]
      show ?thesis by (simp add: Let_def)
    qed
  qed
qed

text \<open>
  The error that \<open>parseLine\<close> raises on a line is caught by \<open>parseFile\<close> and recorded
  with the number of the line, and the other lines are parsed.
\<close>

lemma parseFile_example:
  "parseFile example_builtins (\<lambda>i. example_ambient) default_options example_file
   = \<lparr>entries' = [text_entry example_ambient ''hello world'' ''app.log'' 1
                      (Date 7 (Some 1700000000000)) ''INFO'' ''hello world''],
      errors = [\<lparr>line' = 2, content' = ''{oops}'',
                 error = ''JSON parsing failed: SyntaxError: Unexpected token o in JSON at position 1''\<rparr>],
      totalLines = 4, fileName' = ''app.log'', fileSize = 20\<rparr>"
  by code_simp

lemma find_first:
  "x \<in> set xs \<Longrightarrow> P x \<Longrightarrow> (\<forall>g \<in> set (takeWhile (\<lambda>g. g \<noteq> x) xs). \<not> P g) \<Longrightarrow>
   List.find P xs = Some x"
proof (induction xs)
  case Nil
  then show ?case by simp
next
  case (Cons a xs)
  then show ?case by (cases "a = x") auto
qed

lemma map_of_filter_keys:
  "k \<notin> D \<Longrightarrow> map_of (filter (\<lambda>kv. fst kv \<notin> D) ps) k = map_of ps k"
  by (induction ps) auto

lemma find_none: "\<forall>g \<in> set xs. \<not> P g \<Longrightarrow> List.find P xs = None"
  by (induction xs) auto




text \<open>
  C5, as stated, fails: the message of the record comes from the key \<open>message\<close>, the key
  \<open>msg\<close> of the payload is not consumed, and it is not among the fields of the record.
\<close>

theorem unconsumed_key_removed_counterexample:
  "JSON_parse example_builtins ''{\"message\":\"a\",\"msg\":\"b\"}''
     = Inr (Obj 1 [(''message'', Str ''a''), (''msg'', Str ''b'')])
   \<and> parseLine example_builtins example_ambient True ''{\"message\":\"a\",\"msg\":\"b\"}''
        ''app.log'' 5
       = Return (Some \<lparr>id' = ''k3j2x9loyw3v28'', timestamp = Date 7 (Some 1700000000000),
           level = ''INFO'', message = ''a'', file' = ''app.log'',
           raw = ''{\"message\":\"a\",\"msg\":\"b\"}'', fields' = Some [],
           source = Str ''app.log'', service = Undefined, host = Undefined,
           lineNumber = Some 5\<rparr>)"
  by code_simp

text \<open>
  C5, amended. For a line that \<open>parseLine\<close> parses as JSON into a record, the fields of the
  record have none of the keys \<open>timestamp\<close>, \<open>ts\<close>, \<open>time\<close>, \<open>@timestamp\<close>, \<open>level\<close>,
  \<open>severity\<close>, \<open>message\<close>, \<open>msg\<close>, consumed or not, and every key of the payload that is
  not a timestamp, level or message field name is there with its value.
\<close>

theorem structured_fields:
  assumes "trim line \<noteq> []" and "looksLikeJson line" and "JSON_parse b line = Inr json"
    and "parseLine b amb True line f n = Return (Some e)"
  shows "\<exists>flds. fields' e = Some flds
     \<and> (\<forall>k \<in> set deleted_keys. map_of flds k = None)
     \<and> (\<forall>k. k \<notin> set (timestampFields @ levelFields @ messageFields)
           \<longrightarrow> map_of flds k = map_of (props json) k)"
proof -
  have p: "parseLine b amb True line f n = parseJsonLine b amb line f n"
    using assms(1,2) by (rule parseLine_json)
  let ?flds = "filter (\<lambda>kv. fst kv \<notin> set deleted_keys) (props json)"
  have e: "fields' e = Some ?flds"
    using assms(3,4) unfolding p
    by (auto simp: parseJsonLine_def Let_def split: outcome.splits)
  have d: "map_of ?flds k = None" if "k \<in> set deleted_keys" for k
    using that by (auto simp: map_of_eq_None_iff)
  have r: "map_of ?flds k = map_of (props json) k" if "k \<notin> set deleted_keys" for k
    using that by (rule map_of_filter_keys)
  have s: "k \<notin> set deleted_keys" if "k \<notin> set (timestampFields @ levelFields @ messageFields)" for k
    using that by (auto simp: deleted_keys_def timestampFields_def levelFields_def messageFields_def)
  from e d r s show ?thesis by blast
qed

theorem structured_fields_witness:
  "trim ''{\"level\":\"warning\",\"user\":\"ann\"}'' \<noteq> []
   \<and> looksLikeJson ''{\"level\":\"warning\",\"user\":\"ann\"}''
   \<and> JSON_parse example_builtins ''{\"level\":\"warning\",\"user\":\"ann\"}''
       = Inr (Obj 1 [(''level'', Str ''warning''), (''user'', Str ''ann'')])
   \<and> parseLine example_builtins example_ambient True ''{\"level\":\"warning\",\"user\":\"ann\"}''
        ''app.log'' 4
       = Return (Some \<lparr>id' = ''k3j2x9loyw3v28'', timestamp = Date 7 (Some 1700000000000),
           level = ''WARN'', message = ''{\"level\":\"warning\",\"user\":\"ann\"}'',
           file' = ''app.log'', raw = ''{\"level\":\"warning\",\"user\":\"ann\"}'',
           fields' = Some [(''user'', Str ''ann'')], source = Str ''app.log'',
           service = Undefined, host = Undefined, lineNumber = Some 4\<rparr>)
   \<and> ''level'' \<in> set deleted_keys
   \<and> ''user'' \<notin> set (timestampFields @ levelFields @ messageFields)
   \<and> map_of [(''user'', Str ''ann'')] ''level'' = None
   \<and> map_of [(''user'', Str ''ann'')] ''user''
       = map_of (props (Obj 1 [(''level'', Str ''warning''), (''user'', Str ''ann'')])) ''user''"
proof -
  let ?l = "''{\"level\":\"warning\",\"user\":\"ann\"}''"
  let ?j = "Obj 1 [(''level'', Str ''warning''), (''user'', Str ''ann'')]"
  let ?e = "\<lparr>id' = ''k3j2x9loyw3v28'', timestamp = Date 7 (Some 1700000000000),
           level = ''WARN'', message = ?l, file' = ''app.log'', raw = ?l,
           fields' = Some [(''user'', Str ''ann'')], source = Str ''app.log'',
           service = Undefined, host = Undefined, lineNumber = Some 4\<rparr>"
  have h: "trim ?l \<noteq> []" "looksLikeJson ?l" "JSON_parse example_builtins ?l = Inr ?j"
    "parseLine example_builtins example_ambient True ?l ''app.log'' 4 = Return (Some ?e)"
    by code_simp+
  have k: "''level'' \<in> set deleted_keys"
    "''user'' \<notin> set (timestampFields @ levelFields @ messageFields)"
    by (simp_all add: deleted_keys_def timestampFields_def levelFields_def messageFields_def)
  from structured_fields [OF h] k
  have "map_of [(''user'', Str ''ann'')] ''level'' = None
      \<and> map_of [(''user'', Str ''ann'')] ''user'' = map_of (props ?j) ''user''"
    by auto
  with h k show ?thesis by blast
qed

lemma TimeClip_int:
  "\<bar>n\<bar> \<le> 8640000000000000 \<Longrightarrow> TimeClip (Fin (of_int n)) = Some n"
proof -
  assume a: "\<bar>n\<bar> \<le> 8640000000000000"
  have "\<bar>(of_int n :: rat)\<bar> = of_int \<bar>n\<bar>" by simp
  also have "\<dots> \<le> of_int 8640000000000000" using a by (simp only: of_int_le_iff)
  finally have "\<not> \<bar>(of_int n :: rat)\<bar> > 8640000000000000" by simp
  then show ?thesis by (simp add: TimeClip_def)
qed

text \<open>
  What \<open>parseTimestamp\<close> does on a number, on a string that is no date, and on a value
  that is no date, number or string.
\<close>

lemma parseTimestamp_number:
  "(x < 1000000000000 \<longrightarrow>
      parseTimestamp b amb (Num (Fin x)) = Date (fresh amb) (TimeClip (round_double (x * 1000))))
   \<and> (x \<ge> 1000000000000 \<longrightarrow>
      parseTimestamp b amb (Num (Fin x)) = Date (fresh amb) (TimeClip (Fin x)))"
  by (simp add: parseTimestamp_def num_times_def)

lemma parseTimestamp_fallback:
  "(Date_parse b s = None \<longrightarrow> getTime (parseTimestamp b amb (Str s)) = Some (now amb))
   \<and> ((\<forall>d. v \<noteq> DateV d) \<and> (\<forall>m. v \<noteq> Num m) \<and> (\<forall>t. v \<noteq> Str t) \<longrightarrow>
      getTime (parseTimestamp b amb v) = Some (now amb))"
  by (cases v) (simp_all add: parseTimestamp_def)

text \<open>
  Seconds, milliseconds, and seconds with a fraction: \<^verbatim>\<open>1700000000.123\<close> is the double
  \<open>7130316800515899 / 2^22\<close>, a little below the decimal, and its product with 1000 rounds
  to the whole number of milliseconds.
\<close>

lemma parseTimestamp_number_examples:
  "getTime (parseTimestamp b amb (Num (Fin 1700000000))) = Some 1700000000000"
  "getTime (parseTimestamp b amb (Num (Fin 1700000000123))) = Some 1700000000123"
  "round_double (1700000000123 / 1000) = Fin (7130316800515899 / 4194304)"
  "getTime (parseTimestamp b amb (Num (Fin (7130316800515899 / 4194304)))) = Some 1700000000123"
proof -
  have r: "num_times (Fin 1700000000) 1000 = Fin 1700000000000"
    "num_times (Fin (7130316800515899 / 4194304)) 1000 = Fin 1700000000123"
    by code_simp+
  show "getTime (parseTimestamp b amb (Num (Fin 1700000000))) = Some 1700000000000"
    by (simp add: parseTimestamp_def r TimeClip_def)
  show "getTime (parseTimestamp b amb (Num (Fin 1700000000123))) = Some 1700000000123"
    by (simp add: parseTimestamp_def TimeClip_def)
  show "round_double (1700000000123 / 1000) = Fin (7130316800515899 / 4194304)"
    by code_simp
  have "(7130316800515899 / 4194304 :: rat) < 1000000000000" by simp
  then show "getTime (parseTimestamp b amb (Num (Fin (7130316800515899 / 4194304))))
      = Some 1700000000123"
    by (simp add: parseTimestamp_def r TimeClip_def)
qed

text \<open>
  C9. The code does not do what the claim says on a number that is no time value. The
  payload \<^verbatim>\<open>{"ts":1e16}\<close> has the number \<open>10^16\<close> as its timestamp, which is above the
  largest time value \<open>8.64e15\<close>: \<open>parseTimestamp\<close> answers with an Invalid Date, and so does
  the record that \<open>parseLine\<close> makes of the line, where the claim has the current time.
  The same holds of NaN and of an infinity. On a string that is no date the function does
  check the date it made, and answers with the current time.
\<close>

theorem parseTimestamp_invalid_number:
  "parseTimestamp example_builtins example_ambient (Num (Fin 10000000000000000))
     = Date (fresh example_ambient) None
   \<and> getTime (parseTimestamp example_builtins example_ambient (Num (Fin 10000000000000000)))
       \<noteq> Some (now example_ambient)
   \<and> getTime (parseTimestamp example_builtins example_ambient (Num NaN)) = None
   \<and> getTime (parseTimestamp example_builtins example_ambient (Num PosInf)) = None
   \<and> getTime (parseTimestamp example_builtins example_ambient (Num NegInf)) = None
   \<and> getTime (parseTimestamp example_builtins example_ambient (Str ''soon''))
       = Some (now example_ambient)
   \<and> JSON_parse example_builtins ''{\"ts\":1e16}''
       = Inr (Obj 1 [(''ts'', Num (Fin 10000000000000000))])
   \<and> map_option timestamp
        (returned_entry (parseLine example_builtins example_ambient True ''{\"ts\":1e16}''
           ''app.log'' 1))
       = Some (Date (fresh example_ambient) None)"
  by code_simp

section \<open>Properties of the query language parser\<close>

lemma skip_quoted_ge: "i \<le> skip_quoted cs i"
proof (induction cs i rule: skip_quoted.induct)
  case (1 i)
  then show ?case by simp
next
  case (2 c cs i)
  show ?case
  proof (cases "c = CHR 0x22")
    case True
    then show ?thesis by simp
  next
    case False
    note q = False
    show ?thesis
    proof (cases "c = CHR 0x5C")
      case True
      then show ?thesis
      proof (cases cs)
        case Nil
        with True q show ?thesis by simp
      next
        case (Cons d ds)
        with 2(1) [OF q True Cons] True q show ?thesis by simp
      qed
    next
      case False
      with 2(2) [OF q False] q show ?thesis by simp
    qed
  qed
qed

lemma tokenize_loop_returns:
  "CHR ''='' \<notin> set query \<Longrightarrow> \<exists>ts. tokenize_loop query i tokens = Some ts"
proof (induction "length query - i" arbitrary: i tokens rule: less_induct)
  case less
  show ?case
  proof (cases "drop i query")
    case Nil
    then show ?thesis by (subst tokenize_loop.simps) simp
  next
    case (Cons c cs)
    then have i: "i < length query" by (cases "i < length query") auto
    have c: "c \<in> set query" using Cons by (metis in_set_dropD list.set_intros(1))
    then have ne: "c \<noteq> CHR ''=''" using less.prems by auto
    have step: "\<exists>ts. tokenize_loop query j toks = Some ts" if "i < j" for j toks
      using less.hyps [of j toks] less.prems that i by simp
    note eq = tokenize_loop.simps [of query i tokens, unfolded Cons list.case]
    show ?thesis
    proof (cases "is_space c")
      case True
      then show ?thesis using step [of "i + 1" tokens] by (simp add: eq)
    next
      case False
      note sp = False
      show ?thesis
      proof (cases "c = CHR 0x22")
        case True
        have "i < skip_quoted cs (i + 1) + 1" using skip_quoted_ge [of "i + 1" cs] by simp
        from step [OF this] True sp show ?thesis by (simp add: eq Let_def)
      next
        case False
        note qu = False
        show ?thesis
        proof (cases "c = CHR '':''")
          case True
          then show ?thesis using sp step [of "i + 1"] by (simp add: eq)
        next
          case False
          note co = False
          show ?thesis
          proof (cases "c = CHR ''('' \<or> c = CHR '')''")
            case True
            then show ?thesis using sp qu co step [of "i + 1"] by (simp add: eq)
          next
            case False
            note pa = False
            show ?thesis
            proof (cases "c = CHR ''[''")
              case True
              have "i < i + length (takeWhile (\<lambda>x. x \<noteq> CHR '']'') (c # cs)) + 1" by simp
              from step [OF this] True sp show ?thesis by (simp add: eq Let_def)
            next
              case False
              note br = False
              show ?thesis
              proof (cases "c = CHR ''>'' \<or> c = CHR ''<''")
                case True
                have "i < i + length (case cs of [] \<Rightarrow> [c] | d # ds \<Rightarrow> if d = CHR ''='' then [c, d] else [c])"
                  by (simp split: list.splits)
                from step [OF this] True sp qu co pa br show ?thesis
                  by (simp add: eq Let_def)
              next
                case False
                have "\<not> word_end c" using sp qu co pa False ne by (simp add: word_end_def)
                then have "i < i + length (takeWhile (\<lambda>x. \<not> word_end x) (c # cs))" by simp
                from step [OF this] sp qu co pa br False show ?thesis
                  by (simp add: eq Let_def)
              qed
            qed
          qed
        qed
      qed
    qed
  qed
qed

lemma createFilter_malformed:
  assumes "startsWith v ''[''" and "endsWith v '']''"
    and "length (split_TO (slice v 1 (length v - 1))) \<noteq> 2"
    and "filterOperator op = Some fop"
  shows "createFilter b heap fld op v =
     (Some \<lparr>field = fld, operator = fop, value' = fst (parseValue b heap v), negate = False\<rparr>,
      snd (parseValue b heap v))"
  using assms by (simp add: createFilter_def Let_def split: prod.splits)

lemma parseExpression_malformed:
  assumes "position + 2 < length tokens"
    and "token_type (tokens ! position) = FIELD"
    and "token_type (tokens ! (position + 1)) = OPERATOR"
    and "filterOperator (token_value (tokens ! (position + 1))) = Some fop"
    and "startsWith (token_value (tokens ! (position + 2))) ''[''"
    and "endsWith (token_value (tokens ! (position + 2))) '']''"
    and "length (split_TO (slice (token_value (tokens ! (position + 2))) 1
                   (length (token_value (tokens ! (position + 2))) - 1))) \<noteq> 2"
  shows "parseExpression b tokens position heap =
     (Filter \<lparr>field = token_value (tokens ! position), operator = fop,
              value' = fst (parseValue b heap (token_value (tokens ! (position + 2)))),
              negate = False\<rparr>,
      position + 3, snd (parseValue b heap (token_value (tokens ! (position + 2)))))"
proof -
  have p: "position < length tokens" "Suc position < length tokens"
    "Suc (Suc position) < length tokens"
    using assms(1) by simp_all
  have fe: "field_expression b tokens position heap =
     (Some \<lparr>field = token_value (tokens ! position), operator = fop,
              value' = fst (parseValue b heap (token_value (tokens ! (position + 2)))),
              negate = False\<rparr>,
      position + 3, snd (parseValue b heap (token_value (tokens ! (position + 2)))))"
    using p assms(3,4) createFilter_malformed [OF assms(5,6,7,4), of b heap
        "token_value (tokens ! position)"]
    by (simp add: field_expression_def Let_def numeral_3_eq_3)
  show ?thesis
    using p(1) assms(2) by (subst parseExpression.simps) (simp add: fe)
qed

lemma takeWhile_word:
  "\<forall>c \<in> set w. \<not> word_end c \<Longrightarrow> takeWhile (\<lambda>x. \<not> word_end x) (w @ CHR '':'' # r) = w"
  by (induction w) (auto simp: word_end_def)

lemma takeWhile_bracket:
  "CHR '']'' \<notin> set content \<Longrightarrow>
   takeWhile (\<lambda>x. x \<noteq> CHR '']'') (CHR ''['' # content @ [CHR '']'']) = CHR ''['' # content"
  by (induction content) auto

lemma tokenize_field_bracket:
  assumes "fname \<noteq> []" and "\<forall>c \<in> set fname. \<not> word_end c" and "hd fname \<noteq> CHR ''[''"
    and "toUpperCase fname \<notin> {''AND'', ''OR'', ''NOT''}"
    and "CHR '']'' \<notin> set content"
  shows "tokenize (fname @ '':'' @ ''['' @ content @ '']'') =
     Some [\<lparr>token_type = FIELD, token_value = fname, token_position = 0\<rparr>,
           \<lparr>token_type = OPERATOR, token_value = '':'', token_position = length fname\<rparr>,
           \<lparr>token_type = VALUE, token_value = ''['' @ content @ '']'',
            token_position = length fname + 1\<rparr>]"
proof -
  obtain c fs where f: "fname = c # fs" using assms(1) by (cases fname) auto
  define r1 where "r1 = CHR ''['' # content @ '']''"
  define r0 where "r0 = fs @ CHR '':'' # r1"
  define q where "q = c # r0"
  define n where "n = Suc (length fs)"
  define t1 where "t1 = \<lparr>token_type = FIELD, token_value = c # fs, token_position = 0\<rparr>"
  define t2 where "t2 = \<lparr>token_type = OPERATOR, token_value = '':'', token_position = n\<rparr>"
  define t3 where "t3 = \<lparr>token_type = VALUE, token_value = r1, token_position = n + 1\<rparr>"
  have c: "\<not> word_end c" "c \<noteq> CHR ''[''" and fs: "\<forall>x \<in> set fs. \<not> word_end x"
    using assms(2,3) f by auto
  have c': "\<not> is_space c" "c \<noteq> CHR 0x22" "c \<noteq> CHR '':''" "c \<noteq> CHR ''(''" "c \<noteq> CHR '')''"
    "c \<noteq> CHR ''>''" "c \<noteq> CHR ''<''"
    using c(1) by (auto simp: word_end_def)
  have up: "toUpperCase (c # fs) \<noteq> ''AND''" "toUpperCase (c # fs) \<noteq> ''OR''"
    "toUpperCase (c # fs) \<noteq> ''NOT''"
    using assms(4) f by auto
  have q0: "drop 0 q = c # r0" by (simp add: q_def)
  have tw: "takeWhile (\<lambda>x. \<not> word_end x) (c # r0) = c # fs"
    using takeWhile_word [OF fs, of r1] c(1) by (simp add: r0_def)
  have j1: "0 + length (c # fs) = n" by (simp add: n_def)
  have sl: "slice q 0 n = c # fs" by (simp add: slice_def q_def r0_def n_def)
  have nn: "findNextNonSpace q n = n"
    by (simp add: findNextNonSpace_def q_def r0_def n_def is_space_def)
  have at: "n < length q" "q ! n = CHR '':''"
    by (simp_all add: q_def r0_def n_def nth_append)
  have s1: "tokenize_loop q 0 [] = tokenize_loop q n [t1]"
    by (subst tokenize_loop.simps [of q 0 "[]", unfolded q0 list.case tw j1 Let_def sl nn])
      (simp only: c' c(2) up at if_False if_True simp_thms append_Nil t1_def)
  have q1: "drop n q = CHR '':'' # r1" by (simp add: q_def r0_def n_def)
  have s2: "tokenize_loop q n [t1] = tokenize_loop q (n + 1) [t1, t2]"
    by (subst tokenize_loop.simps [of q n "[t1]", unfolded q1 list.case])
      (simp add: is_space_def t2_def)
  have q2: "drop (n + 1) q = CHR ''['' # (content @ '']'')"
    by (simp add: q_def r0_def r1_def n_def)
  have tb: "takeWhile (\<lambda>x. x \<noteq> CHR '']'') (CHR ''['' # (content @ '']'')) = CHR ''['' # content"
    using takeWhile_bracket [OF assms(5)] by simp
  have l: "n + 1 + length (CHR ''['' # content) + 1 = length q"
    by (simp add: q_def r0_def r1_def n_def)
  have sv: "slice q (n + 1) (length q) = r1"
    by (simp add: slice_def q_def r0_def r1_def n_def)
  have b: "\<not> is_space CHR ''[''" "CHR ''['' \<noteq> CHR 0x22" "CHR ''['' \<noteq> CHR '':''"
    "\<not> (CHR ''['' = CHR ''('' \<or> CHR ''['' = CHR '')'')"
    by (simp_all add: is_space_def)
  have s3: "tokenize_loop q (n + 1) [t1, t2] = tokenize_loop q (length q) [t1, t2, t3]"
    by (subst tokenize_loop.simps [of q "n + 1" "[t1, t2]", unfolded q2 list.case tb l Let_def sv])
      (simp only: b if_False if_True simp_thms append.simps t3_def)
  have q3: "drop (length q) q = []" by simp
  have s4: "tokenize_loop q (length q) [t1, t2, t3] = Some [t1, t2, t3]"
    by (rule tokenize_loop.simps [of q "length q" "[t1, t2, t3]", unfolded q3 list.case])
  have qq: "fname @ '':'' @ ''['' @ content @ '']'' = q"
    by (simp add: q_def r0_def r1_def f)
  have "tokenize q = Some [t1, t2, t3]"
    unfolding tokenize_def by (simp only: s1 s2 s3 s4)
  then show ?thesis
    unfolding qq by (simp add: t1_def t2_def t3_def f n_def r1_def)
qed

text \<open>
  The tokenizer does not return when it comes to a character \<^verbatim>\<open>=\<close> at the start of a
  token: the word read there is empty and the index stays where it is.
\<close>

lemma tokenize_loop_equals_sign:
  assumes "tokenize_loop query i tokens = Some y"
  shows "\<not> (\<exists>cs. drop i query = CHR ''='' # cs)"
proof (rule tokenize_loop.raw_induct
    [where P = "\<lambda>q i t y. \<not> (\<exists>cs. drop i q = CHR ''='' # cs)", OF _ assms], goal_cases)
  case (1 loop q i tokens y)
  show ?case
  proof
    assume "\<exists>cs. drop i q = CHR ''='' # cs"
    then obtain cs where d: "drop i q = CHR ''='' # cs" by blast
    have w: "takeWhile (\<lambda>x. \<not> word_end x) (CHR ''='' # cs) = []"
      by (simp add: word_end_def)
    have s: "slice q i i = []" by (simp add: slice_def)
    have u: "toUpperCase [] = []" by (simp add: toUpperCase_def)
    note p = 1(2) [unfolded d list.case w Let_def list.size s u]
    from p have "\<exists>t. loop q i (tokens @ [t]) = Some y"
      by (auto simp add: is_space_def split: if_splits)
    then obtain t where "loop q i (tokens @ [t]) = Some y" by blast
    from 1(1) [OF this] d show False by blast
  qed
qed

lemma tokenize_equals_sign_example: "tokenize ''level=ERROR'' = None"
proof -
  have n: "tokenize_loop ''level=ERROR'' (Suc (Suc (Suc (Suc (Suc 0))))) ts = None" for ts
    using tokenize_loop_equals_sign [of "''level=ERROR''" "Suc (Suc (Suc (Suc (Suc 0))))" ts]
    by (cases "tokenize_loop ''level=ERROR'' (Suc (Suc (Suc (Suc (Suc 0))))) ts") auto
  show ?thesis
    unfolding tokenize_def
    by (subst tokenize_loop.simps)
      (simp add: is_space_def word_end_def slice_def toUpperCase_def upper_char_def latin_lower_def latin_upper_def
        findNextNonSpace_def Let_def n)
qed

lemma parse_returns: "CHR ''='' \<notin> set query \<Longrightarrow> parse b heap query \<noteq> None"
  using tokenize_loop_returns [of query 0 "[]"]
  by (auto simp: parse_def tokenize_def split: prod.splits)

lemma parse_field_bracket:
  assumes "fname \<noteq> []" and "\<forall>c \<in> set fname. \<not> word_end c" and "hd fname \<noteq> CHR ''[''"
    and "toUpperCase fname \<notin> {''AND'', ''OR'', ''NOT''}"
    and "CHR '']'' \<notin> set content" and "length (split_TO content) \<noteq> 2"
  shows "parse b heap (fname @ '':'' @ ''['' @ content @ '']'') =
     Some ([\<lparr>field = fname, operator = equals,
             value' = fst (parseValue b heap (''['' @ content @ '']'')), negate = False\<rparr>], [])"
proof -
  define v where "v = ''['' @ content @ '']''"
  define tokens where "tokens =
          [\<lparr>token_type = FIELD, token_value = fname, token_position = 0\<rparr>,
           \<lparr>token_type = OPERATOR, token_value = '':'', token_position = length fname\<rparr>,
           \<lparr>token_type = VALUE, token_value = v, token_position = length fname + 1\<rparr>]"
  have t: "tokenize (fname @ '':'' @ ''['' @ content @ '']'') = Some tokens"
    unfolding tokens_def v_def by (rule tokenize_field_bracket [OF assms(1-5)])
  have sw: "startsWith v ''[''" and ew: "endsWith v '']''"
    by (simp_all add: v_def startsWith_def endsWith_def suffix_def)
  have sl: "slice v (Suc 0) (length v - Suc 0) = content" by (simp add: slice_def v_def)
  have e: "parseExpression b tokens 0 heap =
     (Filter \<lparr>field = fname, operator = equals, value' = fst (parseValue b heap v),
              negate = False\<rparr>, 3, snd (parseValue b heap v))"
    using parseExpression_malformed [of 0 tokens equals b heap] sw ew assms(6)
    by (simp add: tokens_def sl filterOperator_def)
  have l: "parse_loop b tokens 0 heap [] [] =
     ([\<lparr>field = fname, operator = equals, value' = fst (parseValue b heap v),
        negate = False\<rparr>], [])"
  proof -
    have len: "length tokens = 3" by (simp add: tokens_def)
    have l3: "parse_loop b tokens 3 h fs ts = (fs, ts)" for h fs ts
      by (subst parse_loop.simps) (simp add: len)
    show ?thesis by (subst parse_loop.simps) (simp add: e l3 len)
  qed
  show ?thesis
    using t l by (simp add: parse_def trim_def v_def)
qed

text \<open>
  C3, as stated, fails: the value literals \<^verbatim>\<open>[A]\<close> and \<^verbatim>\<open>[A TO B TO C]\<close> do not have
  two parts, and the parser makes a filter from each of the two field expressions; the
  free text is empty.
\<close>

theorem malformed_range_counterexample:
  "parse example_builtins 0 ''field:[A]''
     = Some ([\<lparr>field = ''field'', operator = equals, value' = Str ''[A]'', negate = False\<rparr>], [])
   \<and> parse example_builtins 0 ''field:[A TO B TO C]''
     = Some ([\<lparr>field = ''field'', operator = equals, value' = Str ''[A TO B TO C]'',
               negate = False\<rparr>], [])"
  by code_simp

text \<open>
  C3, amended. A field expression whose value is in brackets and has not exactly two parts
  between \<^verbatim>\<open>TO\<close> is not dropped: from a token FIELD, a token OPERATOR and a token with
  such a value, \<open>parseExpression\<close> makes the filter of that field with the operator that
  the operator token maps to and the whole literal, brackets included, as its value; so
  that the query \<^verbatim>\<open>name:[content]\<close> parses to that one filter, with the operator
  \<open>equals\<close>, and no text. No branch of the parser raises an error, and \<open>parse\<close> returns on
  every query without the character \<^verbatim>\<open>=\<close>.
\<close>

theorem malformed_range_literal_filter:
  "(position + 2 < length tokens
      \<and> token_type (tokens ! position) = FIELD
      \<and> token_type (tokens ! (position + 1)) = OPERATOR
      \<and> filterOperator (token_value (tokens ! (position + 1))) = Some fop
      \<and> startsWith (token_value (tokens ! (position + 2))) ''[''
      \<and> endsWith (token_value (tokens ! (position + 2))) '']''
      \<and> length (split_TO (slice (token_value (tokens ! (position + 2))) 1
                   (length (token_value (tokens ! (position + 2))) - 1))) \<noteq> 2
    \<longrightarrow> parseExpression b tokens position heap =
         (Filter \<lparr>field = token_value (tokens ! position), operator = fop,
                  value' = fst (parseValue b heap (token_value (tokens ! (position + 2)))),
                  negate = False\<rparr>,
          position + 3, snd (parseValue b heap (token_value (tokens ! (position + 2))))))
   \<and> (fname \<noteq> [] \<and> (\<forall>c \<in> set fname. \<not> word_end c) \<and> hd fname \<noteq> CHR ''[''
      \<and> toUpperCase fname \<notin> {''AND'', ''OR'', ''NOT''}
      \<and> CHR '']'' \<notin> set content \<and> length (split_TO content) \<noteq> 2
    \<longrightarrow> parse b heap (fname @ '':'' @ ''['' @ content @ '']'') =
         Some ([\<lparr>field = fname, operator = equals,
                 value' = fst (parseValue b heap (''['' @ content @ '']'')),
                 negate = False\<rparr>], []))
   \<and> (CHR ''='' \<notin> set query \<longrightarrow> parse b heap query \<noteq> None)"
  using parseExpression_malformed [of position tokens fop b heap]
    parse_field_bracket [of fname content b heap] parse_returns [of query b heap]
  by blast

theorem malformed_range_literal_filter_witness:
  "''field'' \<noteq> [] \<and> list_all (\<lambda>c. \<not> word_end c) ''field'' \<and> hd ''field'' \<noteq> CHR ''[''
   \<and> toUpperCase ''field'' \<notin> {''AND'', ''OR'', ''NOT''}
   \<and> CHR '']'' \<notin> set ''A TO B TO C'' \<and> split_TO ''A TO B TO C'' = [''A'', ''B'', ''C'']
   \<and> parseValue example_builtins 0 ''[A TO B TO C]'' = (Str ''[A TO B TO C]'', 1)
   \<and> parse example_builtins 0 ''field:[A TO B TO C]''
       = Some ([\<lparr>field = ''field'', operator = equals, value' = Str ''[A TO B TO C]'',
                 negate = False\<rparr>], [])
   \<and> CHR ''='' \<notin> set ''level:[x] or NOT y''
   \<and> parse example_builtins 0 ''level:[x] or NOT y'' \<noteq> None
   \<and> parseExpression example_builtins
        [\<lparr>token_type = TEXT, token_value = ''disk'', token_position = 0\<rparr>,
         \<lparr>token_type = FIELD, token_value = ''size'', token_position = 5\<rparr>,
         \<lparr>token_type = OPERATOR, token_value = '':'', token_position = 9\<rparr>,
         \<lparr>token_type = VALUE, token_value = ''[1]'', token_position = 10\<rparr>] 1 0
       = (Filter \<lparr>field = ''size'', operator = equals, value' = Str ''[1]'', negate = False\<rparr>,
          4, 1)"
proof -
  let ?ts = "[\<lparr>token_type = TEXT, token_value = ''disk'', token_position = 0\<rparr>,
         \<lparr>token_type = FIELD, token_value = ''size'', token_position = 5\<rparr>,
         \<lparr>token_type = OPERATOR, token_value = '':'', token_position = 9\<rparr>,
         \<lparr>token_type = VALUE, token_value = ''[1]'', token_position = 10\<rparr>]"
  note th = malformed_range_literal_filter [of 1 ?ts equals example_builtins 0 "''field''"
      "''A TO B TO C''" "''level:[x] or NOT y''"]
  have f: "''field'' \<noteq> []" "list_all (\<lambda>c. \<not> word_end c) ''field''" "hd ''field'' \<noteq> CHR ''[''"
    "toUpperCase ''field'' \<notin> {''AND'', ''OR'', ''NOT''}"
    by (simp_all add: word_end_def is_space_def toUpperCase_def upper_char_def latin_lower_def latin_upper_def)
  have c: "CHR '']'' \<notin> set ''A TO B TO C''" "split_TO ''A TO B TO C'' = [''A'', ''B'', ''C'']"
    by code_simp+
  have v: "parseValue example_builtins 0 ''[A TO B TO C]'' = (Str ''[A TO B TO C]'', 1)"
    "parseValue example_builtins 0 ''[1]'' = (Str ''[1]'', 1)"
    by (simp_all add: parseValue_def example_builtins_def)
  have e: "CHR ''='' \<notin> set ''level:[x] or NOT y''" by simp
  have t: "startsWith ''[1]'' ''[''" "endsWith ''[1]'' '']''"
    "length (split_TO (slice ''[1]'' 1 (length ''[1]'' - 1))) \<noteq> 2"
    "filterOperator '':'' = Some equals"
    by code_simp+
  have 1: "parse example_builtins 0 ''field:[A TO B TO C]''
       = Some ([\<lparr>field = ''field'', operator = equals, value' = Str ''[A TO B TO C]'',
                 negate = False\<rparr>], [])"
    using th f c v by (simp add: list_all_iff)
  have 2: "parse example_builtins 0 ''level:[x] or NOT y'' \<noteq> None"
    using th e by blast
  have 3: "parseExpression example_builtins ?ts 1 0
       = (Filter \<lparr>field = ''size'', operator = equals, value' = Str ''[1]'', negate = False\<rparr>,
          4, 1)"
    using th t v by simp
  from f c v(1) e 1 2 3 show ?thesis by blast
qed

end
